theory Spec2Isabelle
  imports Complex_Main "HOL-Library.Multiset"
begin

section \<open>View containers: data model\<close>

text \<open>
  The development follows \<^verbatim>\<open>packages/core/src/browser/view-container.ts\<close>.
  JavaScript numbers are modelled as reals: arithmetic is exact (no rounding), and the
  non-finite values that a division by zero would produce are made explicit where
  the code divides by a quantity that can be zero (see \<open>js_div\<close>). An optional number
  (\<^verbatim>\<open>number | undefined\<close>) is a \<open>real option\<close>; it is falsy when it is absent or zero.
\<close>

datatype orientation = Horizontal | Vertical

definition truthy :: "real option \<Rightarrow> bool" where
  "truthy w = (case w of None \<Rightarrow> False | Some x \<Rightarrow> x \<noteq> 0)"

text \<open>\<^verbatim>\<open>a / b\<close> for finite \<open>a\<close>, \<open>b\<close>: \<open>None\<close> stands for the non-finite result of a zero divisor.\<close>

definition js_div :: "real \<Rightarrow> real \<Rightarrow> real option" where
  "js_div a b = (if b = 0 then None else Some (a / b))"

text \<open>\<^verbatim>\<open>Array.prototype.findIndex\<close>; \<open>None\<close> is the result \<open>-1\<close>.\<close>

fun findIndex :: "('a \<Rightarrow> bool) \<Rightarrow> 'a list \<Rightarrow> nat option" where
  "findIndex P [] = None"
| "findIndex P (x # xs) = (if P x then Some 0 else map_option Suc (findIndex P xs))"

record widget =
  widget_id :: string
  widget_description :: "string option"

text \<open>\<^verbatim>\<open>ViewContainer.Factory.WidgetOptions\<close>: every field is optional.\<close>

record widget_options =
  opt_order :: "real option"
  opt_weight :: "real option"
  opt_initiallyCollapsed :: "bool option"
  opt_canHide :: "bool option"
  opt_initiallyHidden :: "bool option"

definition no_options :: widget_options where
  "no_options = \<lparr>opt_order = None, opt_weight = None, opt_initiallyCollapsed = None,
     opt_canHide = None, opt_initiallyHidden = None\<rparr>"

text \<open>
  \<^verbatim>\<open>ViewContainerPart\<close>. \<open>part_id\<close> is the widget id of the part
  (\<^verbatim>\<open>`${viewContainerId}--${wrapped.id}`\<close>); \<open>collapsed\<close> is the field \<^verbatim>\<open>_collapsed\<close>.
\<close>

record part =
  wrapped :: widget
  partId :: string
  part_id :: string
  options :: widget_options
  collapsed :: bool
  isHidden :: bool
  uncollapsedSize :: "real option"
  animatedSize :: "real option"

definition canHide :: "part \<Rightarrow> bool" where
  "canHide p = (case opt_canHide (options p) of None \<Rightarrow> True | Some b \<Rightarrow> b)"

text \<open>
  The setter \<^verbatim>\<open>set collapsed\<close>. Its first argument is the value of
  \<^verbatim>\<open>ViewContainer.getOrientation(this.node)\<close>, which depends on where the node of the part
  is mounted. The second component of the result tells whether \<^verbatim>\<open>collapsedEmitter\<close> fired.
\<close>

definition set_collapsed :: "orientation \<Rightarrow> bool \<Rightarrow> part \<Rightarrow> part \<times> bool" where
  "set_collapsed orient c p =
     (if collapsed p = c \<or> (orient = Horizontal \<and> c) then (p, False)
      else (p\<lparr>collapsed := c\<rparr>, True))"

text \<open>\<^verbatim>\<open>Widget.setHidden\<close> / \<^verbatim>\<open>hide\<close>: the part itself does not look at \<open>canHide\<close>.\<close>

definition setHidden :: "bool \<Rightarrow> part \<Rightarrow> part" where
  "setHidden h p = p\<lparr>isHidden := h\<rparr>"

definition hide :: "part \<Rightarrow> part" where
  "hide p = setHidden True p"

text \<open>
  The constructor of a part. The node of a part under construction is a fresh element
  without ancestors, so \<^verbatim>\<open>getOrientation\<close> yields \<^verbatim>\<open>'vertical'\<close> for it, and the field
  \<^verbatim>\<open>_collapsed\<close> is still undefined: the setter stores \<^verbatim>\<open>!!options.initiallyCollapsed\<close>.
\<close>

definition new_part :: "widget \<Rightarrow> string \<Rightarrow> string \<Rightarrow> widget_options option \<Rightarrow> part" where
  "new_part w pid viewContainerId opts =
     (let os = (case opts of None \<Rightarrow> no_options | Some x \<Rightarrow> x);
          p0 = \<lparr>wrapped = w, partId = pid, part_id = viewContainerId @ ''--'' @ widget_id w,
                options = os,
                collapsed = (case opt_initiallyCollapsed os of None \<Rightarrow> False | Some b \<Rightarrow> b),
                isHidden = False, uncollapsedSize = None, animatedSize = None\<rparr>
      in if (case opt_initiallyHidden os of None \<Rightarrow> False | Some b \<Rightarrow> b) \<and> canHide p0
         then hide p0 else p0)"

section \<open>The layout\<close>

text \<open>
  What the code reads from the rendered document: the orientation that
  \<^verbatim>\<open>ViewContainer.getOrientation\<close> resolves for the node of the container (and so for the
  nodes of the parts mounted below it), the extent of the split panel, and for every part
  (by its \<open>part_id\<close>) the extent of its node and the minimum extent of its body as
  \<^verbatim>\<open>parseCssMagnitude\<close> returns it.
\<close>

record dom =
  mounted :: orientation
  panel_offsetWidth :: real
  panel_offsetHeight :: real
  node_offsetWidth :: "string \<Rightarrow> real"
  node_offsetHeight :: "string \<Rightarrow> real"
  body_minWidth :: "string \<Rightarrow> real"
  body_minHeight :: "string \<Rightarrow> real"

text \<open>
  \<^verbatim>\<open>ViewContainerLayout\<close>: the ordered parts, the orientation stored in the layout, its
  options, and the parent panel (\<open>None\<close>: no parent; \<open>Some b\<close>: a parent whose
  \<^verbatim>\<open>isAttached\<close> is \<open>b\<close>).
\<close>

record layout =
  widgets :: "part list"
  l_orientation :: orientation
  spacing :: real
  headerSize :: real
  animationDuration :: real
  parent_isAttached :: "bool option"

definition minSize :: "dom \<Rightarrow> part \<Rightarrow> real" where
  "minSize d p = (if mounted d = Horizontal then body_minWidth d (part_id p)
                  else body_minHeight d (part_id p))"

text \<open>
  Modelled from the spec: the split-layout primitive (section 6 of the specification)
  offers insert-at-index and move-by-index on the ordered item list; its code is not part
  of the sources. \<open>moveWidget\<close> takes the item at \<open>fromIndex\<close> out and puts it back at
  \<open>toIndex\<close>; indices beyond the end denote the last item.
\<close>

definition insertWidget :: "nat \<Rightarrow> 'a \<Rightarrow> 'a list \<Rightarrow> 'a list" where
  "insertWidget index x xs = take index xs @ [x] @ drop index xs"

definition moveWidget :: "nat \<Rightarrow> nat \<Rightarrow> 'a list \<Rightarrow> 'a list" where
  "moveWidget fromIndex toIndex xs =
     (let n = length xs in
      if n \<le> 1 then xs
      else let f = min fromIndex (n - 1); t = min toIndex (n - 1) in
        if f = t then xs
        else let ys = take f xs @ drop (Suc f) xs in take t ys @ [xs ! f] @ drop t ys)"

definition getPartSize :: "layout \<Rightarrow> dom \<Rightarrow> part \<Rightarrow> real option" where
  "getPartSize L d p =
     (if collapsed p \<or> isHidden p then uncollapsedSize p
      else if l_orientation L = Horizontal then Some (node_offsetWidth d (part_id p))
      else Some (node_offsetHeight d (part_id p)))"

definition getAvailableSize :: "layout \<Rightarrow> dom \<Rightarrow> real" where
  "getAvailableSize L d =
     (case parent_isAttached L of
        None \<Rightarrow> 0
      | Some attached \<Rightarrow>
          if \<not> attached then 0
          else let visiblePartCount = real (length (filter (\<lambda>p. \<not> isHidden p) (widgets L)));
                   a0 = (if l_orientation L = Horizontal then panel_offsetWidth d
                         else panel_offsetHeight d - visiblePartCount * headerSize L);
                   a1 = a0 - (visiblePartCount - 1) * spacing L
               in if a1 < 0 then 0 else a1)"

subsection \<open>setPartSizes\<close>

text \<open>\<^verbatim>\<open>weight || dflt\<close>\<close>

definition weight_or :: "real option \<Rightarrow> real \<Rightarrow> real" where
  "weight_or w dflt = (case w of None \<Rightarrow> dflt | Some x \<Rightarrow> if x = 0 then dflt else x)"

text \<open>First loop: the sum and the number of the weights of visible, expanded parts.\<close>

fun sumWeights :: "part list \<Rightarrow> real option list \<Rightarrow> real \<times> nat \<Rightarrow> real \<times> nat" where
  "sumWeights (p # ps) (w # ws) (totalWeight, weightCount) =
     sumWeights ps ws
       (if truthy w \<and> \<not> isHidden p \<and> \<not> collapsed p
        then (totalWeight + weight_or w 0, weightCount + 1)
        else (totalWeight, weightCount))"
| "sumWeights ps ws acc = acc"

text \<open>Second loop: one average weight for every visible, expanded part without weight.\<close>

fun addAverage :: "real \<Rightarrow> part list \<Rightarrow> real option list \<Rightarrow> real \<Rightarrow> real" where
  "addAverage averageWeight (p # ps) (w # ws) totalWeight =
     addAverage averageWeight ps ws
       (if \<not> truthy w \<and> \<not> isHidden p \<and> \<not> collapsed p
        then totalWeight + averageWeight else totalWeight)"
| "addAverage averageWeight ps ws totalWeight = totalWeight"

text \<open>
  The body of the third loop for a part that is not hidden: the part (whose
  \<open>uncollapsedSize\<close> may have been set), the position of its split handle, and the content
  size computed for an expanded part. \<open>None\<close>: the total weight is zero where the code
  divides by it.
\<close>

definition sizePart ::
  "layout \<Rightarrow> dom \<Rightarrow> real \<Rightarrow> real \<Rightarrow> real \<Rightarrow> part \<Rightarrow> real option \<Rightarrow> real
     \<Rightarrow> (part \<times> real \<times> real option) option" where
  "sizePart L d averageWeight totalWeight availableSize p w position0 =
     (let position = (if l_orientation L = Vertical then position0 + headerSize L else position0) in
      if collapsed p then
        (if truthy w
         then map_option (\<lambda>q. (p\<lparr>uncollapsedSize := Some (q * availableSize)\<rparr>, position, None))
                (js_div (weight_or w 0) totalWeight)
         else Some (p, position, None))
      else
        map_option
          (\<lambda>q. let contentSize = q * availableSize;
                   contentSize' = (if contentSize < minSize d p then minSize d p else contentSize)
               in (p, position + contentSize', Some contentSize'))
          (js_div (weight_or w averageWeight) totalWeight))"

text \<open>
  The state of the third loop: the running position, the parts walked so far, the calls
  \<^verbatim>\<open>setHandlePosition(index, position)\<close> made so far, and (for specification only) the
  content size computed at each index.
\<close>

record walk =
  w_position :: real
  w_parts :: "part list"
  w_handles :: "(nat \<times> real) list"
  w_sizes :: "(nat \<times> real) list"

fun applyWeights ::
  "layout \<Rightarrow> dom \<Rightarrow> real \<Rightarrow> real \<Rightarrow> real \<Rightarrow> nat \<Rightarrow> part list \<Rightarrow> real option list
     \<Rightarrow> walk \<Rightarrow> walk option" where
  "applyWeights L d averageWeight totalWeight availableSize index (p # ps) (w # ws) st =
     (if isHidden p
      then applyWeights L d averageWeight totalWeight availableSize (Suc index) ps ws
             (st\<lparr>w_parts := w_parts st @ [p]\<rparr>)
      else case sizePart L d averageWeight totalWeight availableSize p w (w_position st) of
             None \<Rightarrow> None
           | Some (p', position, c) \<Rightarrow>
               applyWeights L d averageWeight totalWeight availableSize (Suc index) ps ws
                 \<lparr>w_position = position + spacing L,
                  w_parts = w_parts st @ [p'],
                  w_handles = w_handles st @ [(index, position)],
                  w_sizes = w_sizes st @ (case c of None \<Rightarrow> [] | Some x \<Rightarrow> [(index, x)])\<rparr>)"
| "applyWeights L d averageWeight totalWeight availableSize index ps ws st =
     Some (st\<lparr>w_parts := w_parts st @ ps\<rparr>)"

text \<open>
  The outcome of \<^verbatim>\<open>setPartSizes\<close>: the early return, a division by a zero total weight
  (the sizes are not finite numbers then, which this model does not follow further), or
  the layout with the handle positions set and the content sizes computed.
\<close>

datatype sizing =
    Unchanged
  | NonFinite
  | Sized layout "(nat \<times> real) list" "(nat \<times> real) list"

definition setPartSizes :: "layout \<Rightarrow> dom \<Rightarrow> real option list \<Rightarrow> sizing" where
  "setPartSizes L d weights =
     (let parts = widgets L;
          availableSize = getAvailableSize L d in
      case sumWeights parts weights (0, 0) of
        (totalWeight, weightCount) \<Rightarrow>
          if weightCount = 0 \<or> availableSize = 0 then Unchanged
          else
            let averageWeight = totalWeight / real weightCount;
                totalWeight' = addAverage averageWeight parts weights totalWeight
            in (case applyWeights L d averageWeight totalWeight' availableSize 0
                       (butlast parts) weights
                       \<lparr>w_position = 0, w_parts = [], w_handles = [], w_sizes = []\<rparr> of
                  None \<Rightarrow> NonFinite
                | Some st \<Rightarrow>
                    Sized (L\<lparr>widgets := w_parts st @ drop (length parts - 1) parts\<rparr>)
                      (w_handles st) (w_sizes st)))"

subsection \<open>updateCollapsed\<close>

datatype direction = Collapse | Expand

text \<open>
  What \<^verbatim>\<open>updateCollapsed\<close> does after its synchronous part: nothing (the early return), a
  fit request without animation, or an animation in a direction towards or from the
  target \<^verbatim>\<open>fullSize\<close>. The frames of the animation only write \<open>animatedSize\<close> later on.
\<close>

datatype transition = Ignored | FitRequest | Animate direction real

text \<open>
  The part is referred to by its \<open>part_id\<close>, which stands for the object identity
  \<^verbatim>\<open>item.widget === part\<close>.
\<close>

definition isExpandedVisible :: "part \<Rightarrow> bool" where
  "isExpandedVisible p = (\<not> collapsed p \<and> \<not> isHidden p)"

definition updateCollapsed :: "layout \<Rightarrow> dom \<Rightarrow> string \<Rightarrow> bool \<Rightarrow> layout \<times> transition" where
  "updateCollapsed L d ref enableAnimation =
     (case findIndex (\<lambda>p. part_id p = ref) (widgets L) of
        None \<Rightarrow> (L, Ignored)
      | Some index \<Rightarrow>
          let p = widgets L ! index in
          if parent_isAttached L = None \<or> isHidden p then (L, Ignored)
          else
            let currentSize = (if l_orientation L = Horizontal then node_offsetWidth d (part_id p)
                               else node_offsetHeight d (part_id p));
                p' = (if collapsed p \<and> list_ex isExpandedVisible (widgets L)
                      then p\<lparr>uncollapsedSize := Some currentSize\<rparr> else p);
                L' = L\<lparr>widgets := (widgets L)[index := p']\<rparr>
            in if \<not> enableAnimation \<or> animationDuration L \<le> 0 then (L', FitRequest)
               else if collapsed p' then (L', Animate Collapse (currentSize - headerSize L))
               else
                 let fullSize = max (weight_or (uncollapsedSize p') 0 - headerSize L) (minSize d p');
                     fullSize' = (if length (filter isExpandedVisible (widgets L')) = 1
                                  then max fullSize (getAvailableSize L' d) else fullSize)
                 in (L', Animate Expand fullSize'))"

section \<open>The container\<close>

text \<open>
  \<^verbatim>\<open>ViewContainer\<close>: its id, its layout, the document it is rendered in, and whether the
  application state is \<^verbatim>\<open>'ready'\<close> (\<^verbatim>\<open>enableAnimation\<close>). The command and menu registries
  are not part of the state: a command is run by naming the part it was registered for.
\<close>

record container =
  cid :: string
  c_layout :: layout
  c_dom :: dom
  app_ready :: bool

definition HEADER_HEIGHT :: real where
  "HEADER_HEIGHT = 22"

definition c_widgets :: "container \<Rightarrow> part list" where
  "c_widgets C = widgets (c_layout C)"

definition set_widgets :: "part list \<Rightarrow> container \<Rightarrow> container" where
  "set_widgets ps C = C\<lparr>c_layout := (c_layout C)\<lparr>widgets := ps\<rparr>\<rparr>"

definition update_part :: "nat \<Rightarrow> (part \<Rightarrow> part) \<Rightarrow> container \<Rightarrow> container" where
  "update_part index f C = set_widgets ((c_widgets C)[index := f (c_widgets C ! index)]) C"

text \<open>
  \<^verbatim>\<open>part.collapsed = c\<close> for the part at \<open>index\<close> of the layout: the setter, and, when the
  emitter fires, the listener that \<^verbatim>\<open>addWidget\<close> registered, which runs \<^verbatim>\<open>updateCollapsed\<close>.
\<close>

definition setPartCollapsed :: "nat \<Rightarrow> bool \<Rightarrow> container \<Rightarrow> container" where
  "setPartCollapsed index c C =
     (case set_collapsed (mounted (c_dom C)) c (c_widgets C ! index) of
        (p', fired) \<Rightarrow>
          let C1 = set_widgets ((c_widgets C)[index := p']) C in
          if fired
          then C1\<lparr>c_layout := fst (updateCollapsed (c_layout C1) (c_dom C1) (part_id p') (app_ready C1))\<rparr>
          else C1)"

datatype disposable = NullDisposable | PartDisposable string

text \<open>The predicate of \<^verbatim>\<open>findIndex\<close> in \<^verbatim>\<open>addWidget\<close>.\<close>

definition ordered_after :: "real \<Rightarrow> part \<Rightarrow> bool" where
  "ordered_after k p = (case opt_order (options p) of None \<Rightarrow> True | Some x \<Rightarrow> x > k)"

definition addWidget :: "widget \<Rightarrow> widget_options option \<Rightarrow> container \<Rightarrow> disposable \<times> container" where
  "addWidget w opts C =
     (if find (\<lambda>p. widget_id (wrapped p) = widget_id w) (c_widgets C) \<noteq> None
      then (NullDisposable, C)
      else
        let pid = (case widget_description w of Some description \<Rightarrow> description | None \<Rightarrow> widget_id w);
            newPart = new_part w pid (cid C) opts;
            ws = c_widgets C;
            ws' = (case opts of
                     None \<Rightarrow> ws @ [newPart]
                   | Some os \<Rightarrow>
                       (case opt_order os of
                          None \<Rightarrow> ws @ [newPart]
                        | Some k \<Rightarrow>
                            (case findIndex (ordered_after k) ws of
                               Some index \<Rightarrow> insertWidget index newPart ws
                             | None \<Rightarrow> ws @ [newPart])))
        in (PartDisposable (widget_id w), set_widgets ws' C))"

definition removeWidget :: "widget \<Rightarrow> container \<Rightarrow> bool \<times> container" where
  "removeWidget w C =
     (case findIndex (\<lambda>p. widget_id (wrapped p) = widget_id w) (c_widgets C) of
        None \<Rightarrow> (False, C)
      | Some index \<Rightarrow>
          (True, set_widgets (take index (c_widgets C) @ drop (Suc index) (c_widgets C)) C))"

subsection \<open>Persistence\<close>

record part_state =
  ps_partId :: string
  ps_collapsed :: bool
  ps_hidden :: bool
  ps_relativeSize :: "real option"

text \<open>\<^verbatim>\<open>ViewContainer.State\<close>; \<^verbatim>\<open>restoreState\<close> checks that \<^verbatim>\<open>parts\<close> is there.\<close>

record state =
  state_parts :: "part_state list option"

definition storePart :: "layout \<Rightarrow> dom \<Rightarrow> real \<Rightarrow> part \<Rightarrow> part_state" where
  "storePart L d availableSize p =
     (let size0 = getPartSize L d p;
          size = (case size0 of
                    None \<Rightarrow> None
                  | Some s \<Rightarrow> if s \<noteq> 0 \<and> s > HEADER_HEIGHT \<and> mounted d = Vertical
                              then Some (s - HEADER_HEIGHT) else Some s)
      in \<lparr>ps_partId = partId p, ps_collapsed = collapsed p, ps_hidden = isHidden p,
          ps_relativeSize = (if truthy size \<and> availableSize \<noteq> 0
                             then Some (weight_or size 0 / availableSize) else None)\<rparr>)"

definition storeState :: "container \<Rightarrow> state" where
  "storeState C =
     \<lparr>state_parts = Some (map (storePart (c_layout C) (c_dom C)
                                 (getAvailableSize (c_layout C) (c_dom C))) (c_widgets C))\<rparr>"

text \<open>The first loop of \<^verbatim>\<open>restoreState\<close>: reorder the parts according to the stored state.\<close>

fun reorder :: "part_state list \<Rightarrow> nat \<Rightarrow> part list \<Rightarrow> part list" where
  "reorder [] index ps = ps"
| "reorder (s # ss) index ps =
     reorder ss (Suc index)
       (case findIndex (\<lambda>p. partId p = ps_partId s) ps of
          None \<Rightarrow> ps
        | Some currentIndex \<Rightarrow> if currentIndex > index then moveWidget currentIndex index ps else ps)"

text \<open>The body of the second loop: restore visibility and collapsed state of one part.\<close>

definition restorePart :: "part_state list \<Rightarrow> nat \<Rightarrow> container \<Rightarrow> container" where
  "restorePart partStates index C =
     (let p = c_widgets C ! index in
      case find (\<lambda>s. partId p = ps_partId s) partStates of
        Some partState \<Rightarrow>
          let C1 = setPartCollapsed index
                     (ps_collapsed partState \<or> \<not> truthy (ps_relativeSize partState)) C
          in if canHide p then update_part index (setHidden (ps_hidden partState)) C1 else C1
      | None \<Rightarrow> if canHide p then update_part index hide C else C)"

text \<open>
  \<^verbatim>\<open>restoreState\<close> returns the container and the weights that are passed to
  \<^verbatim>\<open>setPartSizes\<close> once the container is attached.
\<close>

definition restoreState :: "state \<Rightarrow> container \<Rightarrow> container \<times> real option list option" where
  "restoreState st C =
     (case state_parts st of
        None \<Rightarrow> (C, None)
      | Some sps \<Rightarrow>
          let partStates = filter (\<lambda>partState. list_ex (\<lambda>p. partId p = ps_partId partState) (c_widgets C)) sps;
              C1 = set_widgets (reorder partStates 0 (c_widgets C)) C;
              C2 = fold (restorePart partStates) [0..<length (c_widgets C1)] C1
          in (C2, Some (map ps_relativeSize partStates)))"

subsection \<open>Commands and events\<close>

definition toggleVisibility :: "nat \<Rightarrow> container \<Rightarrow> container" where
  "toggleVisibility index C =
     (let p = c_widgets C ! index in
      if canHide p
      then let C1 = update_part index (setHidden (\<not> isHidden p)) C in
           if \<not> isHidden (c_widgets C1 ! index) then setPartCollapsed index False C1 else C1
      else C)"

text \<open>The command registered by \<^verbatim>\<open>registerPart\<close> for the part with id \<open>ref\<close>.\<close>

definition toggleVisibilityCommand :: "string \<Rightarrow> container \<Rightarrow> container" where
  "toggleVisibilityCommand ref C =
     (case findIndex (\<lambda>p. part_id p = ref) (c_widgets C) of
        None \<Rightarrow> C
      | Some index \<Rightarrow> toggleVisibility index C)"

text \<open>
  The global hide command. Its argument is the id of the closest part element that the hit
  test of the anchor finds (\<open>None\<close>: no such element).
\<close>

definition findPartForAnchor :: "string option \<Rightarrow> container \<Rightarrow> nat option" where
  "findPartForAnchor closestPart C =
     (case closestPart of
        None \<Rightarrow> None
      | Some i \<Rightarrow> if i = [] then None else findIndex (\<lambda>p. part_id p = i) (c_widgets C))"

definition globalHideCommand :: "string option \<Rightarrow> container \<Rightarrow> container" where
  "globalHideCommand anchor C =
     (case findPartForAnchor anchor C of
        None \<Rightarrow> C
      | Some index \<Rightarrow> if canHide (c_widgets C ! index) then update_part index hide C else C)"

definition moveBefore :: "string \<Rightarrow> string \<Rightarrow> container \<Rightarrow> container" where
  "moveBefore toMovedId moveBeforeThisId C =
     (case (findIndex (\<lambda>p. part_id p = toMovedId) (c_widgets C),
            findIndex (\<lambda>p. part_id p = moveBeforeThisId) (c_widgets C)) of
        (Some toMoveIndex, Some moveBeforeThisIndex) \<Rightarrow>
          set_widgets (moveWidget toMoveIndex moveBeforeThisIndex (c_widgets C)) C
      | _ \<Rightarrow> C)"

text \<open>A click on the header of the part with id \<open>ref\<close>: \<^verbatim>\<open>this.collapsed = !this.collapsed\<close>.\<close>

definition headerClick :: "string \<Rightarrow> container \<Rightarrow> container" where
  "headerClick ref C =
     (case findIndex (\<lambda>p. part_id p = ref) (c_widgets C) of
        None \<Rightarrow> C
      | Some index \<Rightarrow> setPartCollapsed index (\<not> collapsed (c_widgets C ! index)) C)"

definition onAfterAttach :: "container \<Rightarrow> container" where
  "onAfterAttach C =
     (let orientation = mounted (c_dom C);
          C1 = C\<lparr>c_layout := (c_layout C)\<lparr>l_orientation := orientation\<rparr>\<rparr>;
          C2 = (if orientation = Horizontal
                then fold (\<lambda>index. setPartCollapsed index False) [0..<length (c_widgets C1)] C1
                else C1)
      in C2\<lparr>c_layout := (c_layout C2)\<lparr>parent_isAttached := Some True\<rparr>\<rparr>)"

text \<open>
  The constructor: a container that is not mounted yet (its node has no ancestors, so
  its orientation resolves to vertical), with the given widgets added in turn. The call
  of \<^verbatim>\<open>setPartSizes\<close> with the weights of the inputs is deferred until the container is
  attached; it is an operation of its own below.
\<close>

definition empty_container :: "string \<Rightarrow> dom \<Rightarrow> bool \<Rightarrow> container" where
  "empty_container i d ready =
     \<lparr>cid = i,
      c_layout = \<lparr>widgets = [], l_orientation = Vertical, spacing = 2, headerSize = HEADER_HEIGHT,
                  animationDuration = 200, parent_isAttached = Some False\<rparr>,
      c_dom = d\<lparr>mounted := Vertical\<rparr>,
      app_ready = ready\<rparr>"

definition new_container ::
  "string \<Rightarrow> dom \<Rightarrow> bool \<Rightarrow> (widget \<times> widget_options option) list \<Rightarrow> container" where
  "new_container i d ready inputs =
     fold (\<lambda>(w, opts) C. snd (addWidget w opts C)) inputs (empty_container i d ready)"

subsection \<open>Sequences of operations\<close>

text \<open>
  What can happen to a container after its construction. \<open>Attach d\<close>: the container is
  mounted into a document in which it is rendered as \<open>d\<close> tells, and \<^verbatim>\<open>onAfterAttach\<close>
  runs. \<open>Detach\<close>: its node is taken out of the document. \<open>Relayout d\<close>: the extents change,
  the place where the container is mounted does not. \<open>SetPartSizes\<close>: a deferred call of
  \<^verbatim>\<open>setPartSizes\<close> becomes due; it writes sizes only, and where these are not finite the
  container is kept as it is, since neither the order nor the flags of the parts depend
  on them.
\<close>

datatype operation =
    AddWidget widget "widget_options option"
  | RemoveWidget widget
  | RestoreState state
  | ToggleVisibilityCommand string
  | GlobalHideCommand "string option"
  | MoveBefore string string
  | HeaderClick string
  | Attach dom
  | Detach
  | Relayout dom
  | SetPartSizes "real option list"

fun step :: "container \<Rightarrow> operation \<Rightarrow> container" where
  "step C (AddWidget w opts) = snd (addWidget w opts C)"
| "step C (RemoveWidget w) = snd (removeWidget w C)"
| "step C (RestoreState st) = fst (restoreState st C)"
| "step C (ToggleVisibilityCommand ref) = toggleVisibilityCommand ref C"
| "step C (GlobalHideCommand anchor) = globalHideCommand anchor C"
| "step C (MoveBefore a b) = moveBefore a b C"
| "step C (HeaderClick ref) = headerClick ref C"
| "step C (Attach d) = onAfterAttach (C\<lparr>c_dom := d\<rparr>)"
| "step C Detach = C\<lparr>c_dom := (c_dom C)\<lparr>mounted := Vertical\<rparr>\<rparr>"
| "step C (Relayout d) = C\<lparr>c_dom := d\<lparr>mounted := mounted (c_dom C)\<rparr>\<rparr>"
| "step C (SetPartSizes weights) =
     (case setPartSizes (c_layout C) (c_dom C) weights of
        Sized L handles sizes \<Rightarrow> C\<lparr>c_layout := L\<rparr>
      | _ \<Rightarrow> C)"

definition run :: "container \<Rightarrow> operation list \<Rightarrow> container" where
  "run C ops = foldl step C ops"

section \<open>Notions used in the statements\<close>

text \<open>The ids of the wrapped widgets, in the order of the parts.\<close>

definition wrapped_ids :: "container \<Rightarrow> string list" where
  "wrapped_ids C = map (\<lambda>p. widget_id (wrapped p)) (c_widgets C)"

text \<open>
  A view of a part that does not see its sizes, nor its collapsed flag, nor the hidden
  flag of a part that can be hidden.
\<close>

definition flag_blind :: "(part \<Rightarrow> 'a) \<Rightarrow> bool" where
  "flag_blind f \<longleftrightarrow>
     (\<forall>p u. f (p\<lparr>uncollapsedSize := u\<rparr>) = f p) \<and>
     (\<forall>p c. f (p\<lparr>collapsed := c\<rparr>) = f p) \<and>
     (\<forall>p h. canHide p \<longrightarrow> f (p\<lparr>isHidden := h\<rparr>) = f p)"

text \<open>
  What is seen of a part that cannot be hidden: its id and its hidden flag. Nothing is
  seen of a part that can be hidden.
\<close>

definition pinned :: "part \<Rightarrow> (string \<times> bool) option" where
  "pinned p = (if canHide p then None else Some (part_id p, isHidden p))"

text \<open>A part without the size it remembers.\<close>

definition persistent :: "part \<Rightarrow> part" where
  "persistent p = p\<lparr>uncollapsedSize := None\<rparr>"

text \<open>
  What \<^verbatim>\<open>restoreState\<close> makes of a live part, given the orientation in which the container
  is mounted and the stored entries: with a stored entry for its \<open>partId\<close> (the first one),
  the collapsed flag becomes the stored flag, or true when the stored relative size is
  absent or zero, unless the orientation is horizontal and that value is true; the hidden
  flag becomes the stored one when the part can be hidden. Without a stored entry, the
  part is hidden when it can be hidden.
\<close>

definition restored :: "orientation \<Rightarrow> part_state list \<Rightarrow> part \<Rightarrow> part" where
  "restored orient sps p =
     (case find (\<lambda>s. partId p = ps_partId s) sps of
        Some s \<Rightarrow>
          p\<lparr>collapsed :=
              (if orient = Horizontal \<and> (ps_collapsed s \<or> \<not> truthy (ps_relativeSize s))
               then collapsed p
               else ps_collapsed s \<or> \<not> truthy (ps_relativeSize s)),
            isHidden := (if canHide p then ps_hidden s else isHidden p)\<rparr>
      | None \<Rightarrow> if canHide p then hide p else p)"

text \<open>The entry that \<^verbatim>\<open>storeState\<close> writes for a part of the container.\<close>

definition stored_entry :: "container \<Rightarrow> part \<Rightarrow> part_state" where
  "stored_entry C p =
     storePart (c_layout C) (c_dom C) (getAvailableSize (c_layout C) (c_dom C)) p"

text \<open>
  The average weight and the total weight that \<^verbatim>\<open>setPartSizes\<close> computes in its first two
  loops, and the share of the available size that the weight at an index stands for: the
  weight, or the average weight for a part without weight, divided by the total weight,
  times the available size.
\<close>

definition averageWeightOf :: "part list \<Rightarrow> real option list \<Rightarrow> real" where
  "averageWeightOf parts weights =
     (case sumWeights parts weights (0, 0) of
        (totalWeight, weightCount) \<Rightarrow> totalWeight / real weightCount)"

definition totalWeightOf :: "part list \<Rightarrow> real option list \<Rightarrow> real" where
  "totalWeightOf parts weights =
     (case sumWeights parts weights (0, 0) of
        (totalWeight, weightCount) \<Rightarrow>
          addAverage (totalWeight / real weightCount) parts weights totalWeight)"

definition share :: "part list \<Rightarrow> real option list \<Rightarrow> real \<Rightarrow> nat \<Rightarrow> real" where
  "share parts weights availableSize i =
     weight_or (weights ! i) (averageWeightOf parts weights) / totalWeightOf parts weights
       * availableSize"








subsection \<open>Example inputs\<close>

definition ex_dom :: dom where
  "ex_dom = \<lparr>mounted = Vertical, panel_offsetWidth = 300, panel_offsetHeight = 1070,
     node_offsetWidth = (\<lambda>i. 300), node_offsetHeight = (\<lambda>i. 100),
     body_minWidth = (\<lambda>i. 0), body_minHeight = (\<lambda>i. 0)\<rparr>"

definition ex_widget :: "string \<Rightarrow> widget" where
  "ex_widget i = \<lparr>widget_id = i, widget_description = None\<rparr>"

definition ex_ordered :: "real \<Rightarrow> widget_options" where
  "ex_ordered k = no_options\<lparr>opt_order := Some k\<rparr>"

definition ex_container :: container where
  "ex_container = new_container ''vc'' ex_dom True
     [(ex_widget ''a'', Some (ex_ordered 1)), (ex_widget ''b'', Some (ex_ordered 3)),
      (ex_widget ''c'', None)]"

definition ex_hidden_container :: container where
  "ex_hidden_container = new_container ''vc'' ex_dom True
     [(ex_widget ''a'',
       Some (no_options\<lparr>opt_initiallyCollapsed := Some True, opt_initiallyHidden := Some True\<rparr>))]"

definition ex_pinned_container :: container where
  "ex_pinned_container = new_container ''vc'' ex_dom True
     [(ex_widget ''p'',
       Some (no_options\<lparr>opt_canHide := Some False, opt_initiallyHidden := Some True\<rparr>))]"

definition ex_part :: "string \<Rightarrow> bool \<Rightarrow> bool \<Rightarrow> real option \<Rightarrow> part" where
  "ex_part i c h u =
     \<lparr>wrapped = ex_widget i, partId = i, part_id = ''vc--'' @ i, options = no_options,
      collapsed = c, isHidden = h, uncollapsedSize = u, animatedSize = None\<rparr>"

definition ex_layout :: "part list \<Rightarrow> layout" where
  "ex_layout ps =
     \<lparr>widgets = ps, l_orientation = Vertical, spacing = 2, headerSize = 22,
      animationDuration = 200, parent_isAttached = Some True\<rparr>"

definition ex_horizontal_container :: container where
  "ex_horizontal_container =
     run (new_container ''vc'' ex_dom True [])
       [Attach (ex_dom\<lparr>mounted := Horizontal\<rparr>),
        AddWidget (ex_widget ''a'') (Some (no_options\<lparr>opt_initiallyCollapsed := Some True\<rparr>))]"

definition ex_entry :: "string \<Rightarrow> bool \<Rightarrow> bool \<Rightarrow> real option \<Rightarrow> part_state" where
  "ex_entry i c h r = \<lparr>ps_partId = i, ps_collapsed = c, ps_hidden = h, ps_relativeSize = r\<rparr>"

definition ex_state :: state where
  "ex_state = \<lparr>state_parts = Some [ex_entry ''zz'' False False (Some (1 / 2)),
                                      ex_entry ''b'' False True (Some (1 / 2)),
                                      ex_entry ''a'' True False None]\<rparr>"

text \<open>A container with one expanded part, mounted vertically and horizontally.\<close>

definition ex_single_vertical :: container where
  "ex_single_vertical = step (new_container ''vc'' ex_dom True [(ex_widget ''a'', None)]) (Attach ex_dom)"

definition ex_single_horizontal :: container where
  "ex_single_horizontal =
     step (new_container ''vc'' ex_dom True [(ex_widget ''a'', None)])
       (Attach (ex_dom\<lparr>mounted := Horizontal\<rparr>))"

text \<open>The same container mounted in a panel that is not displayed: all extents are zero.\<close>

definition ex_single_undisplayed :: container where
  "ex_single_undisplayed =
     step (new_container ''vc'' ex_dom True [(ex_widget ''a'', None)])
       (Attach (ex_dom\<lparr>panel_offsetWidth := 0, panel_offsetHeight := 0,
                        node_offsetWidth := (\<lambda>i. 0), node_offsetHeight := (\<lambda>i. 0)\<rparr>))"

definition ex_attached_container :: container where
  "ex_attached_container = step ex_container (Attach ex_dom)"

text \<open>
  Three visible, expanded parts in a vertical layout; with \<open>ex_dom\<close> the available size
  is 1000.
\<close>

definition ex_three :: layout where
  "ex_three = ex_layout [ex_part ''a'' False False None, ex_part ''b'' False False None,
                         ex_part ''c'' False False None]"


section \<open>Properties\<close>

subsection \<open>Lists\<close>

lemma findIndex_None_iff: "findIndex P xs = None \<longleftrightarrow> (\<forall>x\<in>set xs. \<not> P x)"
  by (induction xs) auto

lemma findIndex_Some:
  "findIndex P xs = Some i \<Longrightarrow> i < length xs \<and> P (xs ! i) \<and> (\<forall>j<i. \<not> P (xs ! j))"
proof (induction xs arbitrary: i)
  case Nil
  then show ?case by simp
next
  case (Cons x xs)
  show ?case
  proof (cases "P x")
    case True
    with Cons.prems show ?thesis by simp
  next
    case False
    with Cons.prems obtain k where k: "findIndex P xs = Some k" "i = Suc k"
      by auto
    from Cons.IH[OF k(1)] False k(2) show ?thesis
      by (auto simp: nth_Cons split: nat.splits)
  qed
qed

lemma findIndex_le:
  "k < length xs \<Longrightarrow> P (xs ! k) \<Longrightarrow> \<exists>i\<le>k. findIndex P xs = Some i"
proof -
  assume k: "k < length xs" "P (xs ! k)"
  then have "findIndex P xs \<noteq> None"
    by (auto simp: findIndex_None_iff)
  then obtain i where i: "findIndex P xs = Some i" by auto
  from findIndex_Some[OF i] k have "i \<le> k"
    by (meson not_le_imp_less)
  with i show ?thesis by blast
qed

lemma mset_insertWidget: "mset (insertWidget i x xs) = add_mset x (mset xs)"
proof -
  have "mset (take i xs) + mset (drop i xs) = mset xs"
    by (metis append_take_drop_id mset_append)
  then show ?thesis by (simp add: insertWidget_def)
qed

lemma mset_remove_nth: "i < length xs \<Longrightarrow> add_mset (xs ! i) (mset (take i xs @ drop (Suc i) xs)) = mset xs"
  by (metis id_take_nth_drop mset.simps(2) mset_append union_mset_add_mset_right)

lemma mset_moveWidget: "mset (moveWidget f t xs) = mset xs"
proof (cases "length xs \<le> 1 \<or> min f (length xs - 1) = min t (length xs - 1)")
  case True
  then show ?thesis by (auto simp: moveWidget_def Let_def)
next
  case False
  define f' where "f' = min f (length xs - 1)"
  define t' where "t' = min t (length xs - 1)"
  define ys where "ys = take f' xs @ drop (Suc f') xs"
  from False have f': "f' < length xs" by (auto simp: f'_def)
  have "moveWidget f t xs = take t' ys @ [xs ! f'] @ drop t' ys"
    using False by (simp add: moveWidget_def Let_def f'_def t'_def ys_def)
  then have "mset (moveWidget f t xs) = add_mset (xs ! f') (mset (take t' ys) + mset (drop t' ys))"
    by simp
  also have "mset (take t' ys) + mset (drop t' ys) = mset ys"
    by (metis append_take_drop_id mset_append)
  also have "add_mset (xs ! f') (mset ys) = mset xs"
    unfolding ys_def using mset_remove_nth[OF f'] .
  finally show ?thesis .
qed

lemma length_moveWidget: "length (moveWidget f t xs) = length xs"
  using mset_moveWidget[of f t xs] by (metis size_mset)

subsection \<open>What the operations keep\<close>

lemma c_widgets_set_widgets: "c_widgets (set_widgets ps C) = ps"
  by (simp add: c_widgets_def set_widgets_def)

lemma c_dom_set_widgets: "c_dom (set_widgets ps C) = c_dom C"
  by (simp add: set_widgets_def)

lemma map_update_same:
  assumes "f q = f (xs ! i)"
  shows "map f (xs[i := q]) = map f xs"
proof (cases "i < length xs")
  case True
  with assms have "(map f xs)[i := f q] = map f xs"
    by (metis list_update_id nth_map)
  then show ?thesis by (simp add: map_update)
next
  case False
  then have "xs[i := q] = xs" by (simp add: list_update_beyond)
  then show ?thesis by simp
qed

lemma updateCollapsed_map:
  assumes "\<And>p u. f (p\<lparr>uncollapsedSize := u\<rparr>) = f p"
  shows "map f (widgets (fst (updateCollapsed L d ref a))) = map f (widgets L)"
proof (cases "findIndex (\<lambda>p. part_id p = ref) (widgets L)")
  case None
  then show ?thesis by (simp add: updateCollapsed_def)
next
  case (Some index)
  show ?thesis
    using Some by (simp add: updateCollapsed_def Let_def map_update_same assms)
qed

lemma updateCollapsed_rest:
  "l_orientation (fst (updateCollapsed L d ref a)) = l_orientation L"
  "parent_isAttached (fst (updateCollapsed L d ref a)) = parent_isAttached L"
  "spacing (fst (updateCollapsed L d ref a)) = spacing L"
  "headerSize (fst (updateCollapsed L d ref a)) = headerSize L"
  "animationDuration (fst (updateCollapsed L d ref a)) = animationDuration L"
  by (simp_all add: updateCollapsed_def Let_def split: option.splits)

lemma setPartCollapsed_map:
  assumes "\<And>p u. f (p\<lparr>uncollapsedSize := u\<rparr>) = f p"
    and "\<And>p c. f (p\<lparr>collapsed := c\<rparr>) = f p"
  shows "map f (c_widgets (setPartCollapsed index c C)) = map f (c_widgets C)"
proof -
  have lay: "c_widgets (X\<lparr>c_layout := Y\<rparr>) = widgets Y" for X Y
    by (simp add: c_widgets_def)
  have sw: "widgets (c_layout (set_widgets ps X)) = ps" for ps X
    by (simp add: set_widgets_def)
  show ?thesis
    by (simp add: setPartCollapsed_def set_collapsed_def Let_def c_widgets_set_widgets
        map_update_same assms lay sw updateCollapsed_map[where f=f, OF assms(1)])
qed

lemma setPartCollapsed_rest:
  "c_dom (setPartCollapsed index c C) = c_dom C"
  "cid (setPartCollapsed index c C) = cid C"
  "app_ready (setPartCollapsed index c C) = app_ready C"
  by (simp_all add: setPartCollapsed_def set_widgets_def Let_def split: prod.splits)

lemma hide_eq: "hide = setHidden True"
  by (rule ext) (simp add: hide_def)

lemma update_part_map:
  assumes "index < length (c_widgets C) \<Longrightarrow> f (g (c_widgets C ! index)) = f (c_widgets C ! index)"
  shows "map f (c_widgets (update_part index g C)) = map f (c_widgets C)"
proof (cases "index < length (c_widgets C)")
  case True
  with assms show ?thesis
    by (simp add: update_part_def c_widgets_set_widgets map_update_same)
next
  case False
  then have "(c_widgets C)[index := g (c_widgets C ! index)] = c_widgets C"
    by (simp add: list_update_beyond)
  then show ?thesis
    by (simp add: update_part_def c_widgets_set_widgets)
qed

lemma distinct_map_mset: "mset xs = mset ys \<Longrightarrow> distinct (map f xs) = distinct (map f ys)"
  by (metis mset_eq_imp_distinct_iff mset_map)

lemma new_part_wrapped: "wrapped (new_part w pid i opts) = w"
  by (simp add: new_part_def Let_def hide_def setHidden_def)

lemma addWidget_widgets_mset:
  "find (\<lambda>p. widget_id (wrapped p) = widget_id w) (c_widgets C) = None \<Longrightarrow>
   \<exists>pid. mset (c_widgets (snd (addWidget w opts C))) = add_mset (new_part w pid (cid C) opts) (mset (c_widgets C))"
  by (auto simp: addWidget_def Let_def c_widgets_set_widgets mset_insertWidget split: option.splits)

lemma addWidget_distinct:
  assumes "distinct (wrapped_ids C)"
  shows "distinct (wrapped_ids (snd (addWidget w opts C)))"
proof (cases "find (\<lambda>p. widget_id (wrapped p) = widget_id w) (c_widgets C)")
  case (Some a)
  then show ?thesis using assms by (simp add: addWidget_def)
next
  case None
  then obtain pid where m: "mset (c_widgets (snd (addWidget w opts C))) = mset (new_part w pid (cid C) opts # c_widgets C)"
    using addWidget_widgets_mset[of w C opts] by auto
  from None have fresh: "widget_id w \<notin> set (wrapped_ids C)"
    by (auto simp: find_None_iff wrapped_ids_def)
  have "distinct (wrapped_ids (snd (addWidget w opts C))) =
        distinct (map (\<lambda>p. widget_id (wrapped p)) (new_part w pid (cid C) opts # c_widgets C))"
    unfolding wrapped_ids_def by (rule distinct_map_mset[OF m])
  with fresh assms show ?thesis
    by (simp add: wrapped_ids_def new_part_wrapped)
qed

lemma removeWidget_distinct:
  assumes "distinct (wrapped_ids C)"
  shows "distinct (wrapped_ids (snd (removeWidget w C)))"
proof (cases "findIndex (\<lambda>p. widget_id (wrapped p) = widget_id w) (c_widgets C)")
  case None
  then show ?thesis using assms by (simp add: removeWidget_def)
next
  case (Some i)
  then have i: "i < length (c_widgets C)" by (simp add: findIndex_Some)
  let ?ys = "take i (c_widgets C) @ drop (Suc i) (c_widgets C)"
  have "mset (c_widgets C ! i # ?ys) = mset (c_widgets C)"
    using mset_remove_nth[OF i] by simp
  then have "distinct (map (\<lambda>p. widget_id (wrapped p)) (c_widgets C ! i # ?ys))"
    using assms distinct_map_mset unfolding wrapped_ids_def by blast
  then show ?thesis
    using Some by (simp add: removeWidget_def wrapped_ids_def c_widgets_set_widgets)
qed

lemma mset_reorder: "mset (reorder ss index ps) = mset ps"
  by (induction ss index ps rule: reorder.induct) (auto simp: mset_moveWidget split: option.splits)

lemma length_reorder: "length (reorder ss index ps) = length ps"
  using mset_reorder[of ss index ps] by (metis size_mset)

lemma flag_blind_canHide: "flag_blind canHide"
  by (simp add: flag_blind_def canHide_def)

lemma setPartCollapsed_blind:
  "flag_blind f \<Longrightarrow> map f (c_widgets (setPartCollapsed index c C)) = map f (c_widgets C)"
  by (rule setPartCollapsed_map[where f=f]) (simp_all add: flag_blind_def)

lemma hide_part_blind:
  assumes "flag_blind f" and "index < length (c_widgets C) \<Longrightarrow> canHide (c_widgets C ! index)"
  shows "map f (c_widgets (update_part index (setHidden h) C)) = map f (c_widgets C)"
  using assms by (intro update_part_map) (simp add: setHidden_def flag_blind_def)

lemma nth_map_eq:
  "map f xs = map f ys \<Longrightarrow> i < length xs \<Longrightarrow> f (xs ! i) = f (ys ! i)"
  by (metis length_map nth_map)

lemma restorePart_blind:
  assumes "flag_blind f"
  shows "map f (c_widgets (restorePart sps index C)) = map f (c_widgets C)"
proof -
  let ?p = "c_widgets C ! index"
  have sc: "map f (c_widgets (setPartCollapsed index c C)) = map f (c_widgets C)" for c
    by (rule setPartCollapsed_blind[OF assms])
  have ch: "canHide (c_widgets (setPartCollapsed index c C) ! index)"
    if "canHide ?p" "index < length (c_widgets (setPartCollapsed index c C))" for c
    using nth_map_eq[OF setPartCollapsed_blind[OF flag_blind_canHide, of index c C] that(2)] that(1)
    by simp
  show ?thesis
  proof (cases "find (\<lambda>s. partId ?p = ps_partId s) sps")
    case None
    then show ?thesis
      using hide_part_blind[OF assms, of index C True]
      by (simp add: restorePart_def Let_def hide_eq)
  next
    case (Some s)
    then show ?thesis
      using hide_part_blind[OF assms, of index "setPartCollapsed index c C" for c] ch sc
      by (simp add: restorePart_def Let_def)
  qed
qed

lemma fold_blind:
  assumes "\<And>i X. map f (c_widgets (g i X)) = map f (c_widgets X)"
  shows "map f (c_widgets (fold g js X)) = map f (c_widgets X)"
  by (induction js arbitrary: X) (simp_all add: assms)

lemma restoreState_blind:
  assumes "flag_blind f"
  shows "mset (map f (c_widgets (fst (restoreState st C)))) = mset (map f (c_widgets C))"
proof (cases "state_parts st")
  case None
  then show ?thesis by (simp add: restoreState_def)
next
  case (Some sps)
  have "map f (c_widgets (fold (restorePart ss) js X)) = map f (c_widgets X)" for ss js X
    by (rule fold_blind) (rule restorePart_blind[OF assms])
  then show ?thesis
    using Some by (simp add: restoreState_def Let_def c_widgets_set_widgets mset_reorder)
qed

lemma toggleVisibility_blind:
  assumes "flag_blind f"
  shows "map f (c_widgets (toggleVisibility index C)) = map f (c_widgets C)"
proof (cases "canHide (c_widgets C ! index)")
  case False
  then show ?thesis by (simp add: toggleVisibility_def)
next
  case True
  then show ?thesis
    using hide_part_blind[OF assms, of index C]
    by (simp add: toggleVisibility_def Let_def setPartCollapsed_blind[OF assms])
qed

lemma toggleVisibilityCommand_blind:
  "flag_blind f \<Longrightarrow> map f (c_widgets (toggleVisibilityCommand ref C)) = map f (c_widgets C)"
  by (simp add: toggleVisibilityCommand_def toggleVisibility_blind split: option.splits)

lemma globalHideCommand_blind:
  "flag_blind f \<Longrightarrow> map f (c_widgets (globalHideCommand anchor C)) = map f (c_widgets C)"
  using hide_part_blind[of f _ C True]
  by (simp add: globalHideCommand_def hide_eq split: option.splits)

lemma headerClick_blind:
  "flag_blind f \<Longrightarrow> map f (c_widgets (headerClick ref C)) = map f (c_widgets C)"
  by (simp add: headerClick_def setPartCollapsed_blind split: option.splits)

lemma onAfterAttach_blind:
  assumes "flag_blind f"
  shows "map f (c_widgets (onAfterAttach C)) = map f (c_widgets C)"
proof -
  have lay: "c_widgets (X\<lparr>c_layout := (c_layout X)\<lparr>l_orientation := z\<rparr>\<rparr>) = c_widgets X"
    "c_widgets (X\<lparr>c_layout := (c_layout X)\<lparr>parent_isAttached := y\<rparr>\<rparr>) = c_widgets X" for X z y
    by (simp_all add: c_widgets_def)
  have "map f (c_widgets (fold (\<lambda>index. setPartCollapsed index False) js X)) = map f (c_widgets X)" for js X
    by (rule fold_blind) (rule setPartCollapsed_blind[OF assms])
  then show ?thesis
    by (simp add: onAfterAttach_def Let_def lay)
qed

lemma moveBefore_mset: "mset (c_widgets (moveBefore a b C)) = mset (c_widgets C)"
  by (simp add: moveBefore_def c_widgets_set_widgets mset_moveWidget split: option.splits)

lemma sizePart_blind:
  assumes "\<And>p u. f (p\<lparr>uncollapsedSize := u\<rparr>) = f p"
    and "sizePart L d avg tot av p w pos = Some (p', pos', c)"
  shows "f p' = f p"
  using assms by (auto simp: sizePart_def Let_def split: if_splits)

lemma applyWeights_blind:
  assumes "\<And>p u. f (p\<lparr>uncollapsedSize := u\<rparr>) = f p"
  shows "applyWeights L d avg tot av index ps ws st = Some st' \<Longrightarrow>
         map f (w_parts st') = map f (w_parts st) @ map f ps"
proof (induction L d avg tot av index ps ws st rule: applyWeights.induct)
  case (1 L d avg tot av index p ps w ws st)
  show ?case
  proof (cases "isHidden p")
    case True
    with 1 show ?thesis by simp
  next
    case False
    with "1.prems" obtain p' pos c where sp: "sizePart L d avg tot av p w (w_position st) = Some (p', pos, c)"
      by (auto split: option.splits)
    from sizePart_blind[where f=f, OF assms sp] have "f p' = f p" .
    with 1 False sp show ?thesis by simp
  qed
qed auto

lemma butlast_drop_last: "butlast xs @ drop (length xs - 1) xs = xs"
proof (cases "xs = []")
  case False
  then have "drop (length xs - 1) xs = [last xs]"
    by (metis append_butlast_last_id append_eq_conv_conj length_butlast)
  with False show ?thesis by simp
qed simp

lemma setPartSizes_blind:
  assumes "\<And>p u. f (p\<lparr>uncollapsedSize := u\<rparr>) = f p"
    and "setPartSizes L d ws = Sized L' hs ss"
  shows "map f (widgets L') = map f (widgets L)"
proof -
  obtain tw wc where sw: "sumWeights (widgets L) ws (0, 0) = (tw, wc)"
    by (cases "sumWeights (widgets L) ws (0, 0)")
  from assms(2) sw obtain st where
    aw: "applyWeights L d (tw / real wc) (addAverage (tw / real wc) (widgets L) ws tw)
           (getAvailableSize L d) 0 (butlast (widgets L)) ws
           \<lparr>w_position = 0, w_parts = [], w_handles = [], w_sizes = []\<rparr> = Some st"
    and L': "L' = L\<lparr>widgets := w_parts st @ drop (length (widgets L) - 1) (widgets L)\<rparr>"
    by (auto simp: setPartSizes_def Let_def split: if_splits option.splits)
  from applyWeights_blind[where f=f, OF assms(1) aw]
  have "map f (w_parts st) = map f (butlast (widgets L))" by simp
  then have "map f (widgets L') = map f (butlast (widgets L) @ drop (length (widgets L) - 1) (widgets L))"
    by (simp add: L')
  then show ?thesis by (simp only: butlast_drop_last)
qed

lemma c_widgets_c_dom: "c_widgets (C\<lparr>c_dom := d\<rparr>) = c_widgets C"
  by (simp add: c_widgets_def)

lemma step_blind:
  assumes "flag_blind f"
    and "\<And>w opts. op \<noteq> AddWidget w opts" "\<And>w. op \<noteq> RemoveWidget w"
  shows "mset (map f (c_widgets (step C op))) = mset (map f (c_widgets C))"
proof (cases op)
  case (RestoreState st)
  then show ?thesis using restoreState_blind[OF assms(1), of st C] by simp
next
  case (SetPartSizes ws)
  have ub: "\<And>p u. f (p\<lparr>uncollapsedSize := u\<rparr>) = f p"
    using assms(1) by (simp add: flag_blind_def)
  show ?thesis
  proof (cases "setPartSizes (c_layout C) (c_dom C) ws")
    case (Sized L hs ss)
    from setPartSizes_blind[where f=f, OF ub Sized] show ?thesis
      using SetPartSizes Sized by (simp add: c_widgets_def)
  qed (simp_all add: SetPartSizes)
next
  case (MoveBefore a b)
  then show ?thesis using moveBefore_mset[of a b C] by (metis mset_map step.simps(6))
qed (use assms in \<open>simp_all add: toggleVisibilityCommand_blind globalHideCommand_blind
      headerClick_blind onAfterAttach_blind c_widgets_c_dom\<close>)

lemma flag_blind_wid: "flag_blind (\<lambda>p. widget_id (wrapped p))"
  by (simp add: flag_blind_def)

lemma step_distinct:
  assumes "distinct (wrapped_ids C)"
  shows "distinct (wrapped_ids (step C op))"
proof (cases "(\<exists>w opts. op = AddWidget w opts) \<or> (\<exists>w. op = RemoveWidget w)")
  case True
  then show ?thesis
    using assms by (auto simp: addWidget_distinct removeWidget_distinct)
next
  case False
  then have "mset (wrapped_ids (step C op)) = mset (wrapped_ids C)"
    unfolding wrapped_ids_def by (intro step_blind[OF flag_blind_wid]) auto
  then show ?thesis using assms by (metis mset_eq_imp_distinct_iff)
qed

lemma run_distinct: "distinct (wrapped_ids C) \<Longrightarrow> distinct (wrapped_ids (run C ops))"
  unfolding run_def by (induction ops arbitrary: C) (simp_all add: step_distinct)

lemma new_container_distinct: "distinct (wrapped_ids (new_container i d ready inputs))"
proof -
  have "distinct (wrapped_ids C) \<Longrightarrow>
        distinct (wrapped_ids (fold (\<lambda>(w, opts) C. snd (addWidget w opts C)) inputs C))" for C
    by (induction inputs arbitrary: C) (auto simp: addWidget_distinct)
  moreover have "distinct (wrapped_ids (empty_container i d ready))"
    by (simp add: wrapped_ids_def empty_container_def c_widgets_def)
  ultimately show ?thesis by (simp add: new_container_def)
qed

subsection \<open>The example container\<close>

lemma ex_container_widgets:
  "c_widgets ex_container =
     [new_part (ex_widget ''a'') ''a'' ''vc'' (Some (ex_ordered 1)),
      new_part (ex_widget ''b'') ''b'' ''vc'' (Some (ex_ordered 3)),
      new_part (ex_widget ''c'') ''c'' ''vc'' None]"
  by (simp add: ex_container_def new_container_def empty_container_def addWidget_def
      c_widgets_def set_widgets_def new_part_def ex_widget_def ex_ordered_def
      no_options_def canHide_def insertWidget_def ordered_after_def Let_def)

lemma ex_container_cid: "cid ex_container = ''vc''"
  by (simp add: ex_container_def new_container_def empty_container_def addWidget_def
      c_widgets_def set_widgets_def Let_def)

subsection \<open>Adding widgets\<close>

text \<open>
  Claim C4. When a live part already wraps a widget with the id of the given widget,
  \<^verbatim>\<open>addWidget\<close> returns the null disposable and leaves the container as it is, so the
  number of live parts does not change. In every container that results from the
  constructor and any sequence of operations, the ids of the wrapped widgets are pairwise
  distinct.
\<close>

theorem addWidget_duplicate_noop:
  "(list_ex (\<lambda>p. widget_id (wrapped p) = widget_id w) (c_widgets C) \<longrightarrow>
      addWidget w opts C = (NullDisposable, C)
      \<and> length (c_widgets (snd (addWidget w opts C))) = length (c_widgets C))
   \<and> distinct (wrapped_ids (run (new_container i d ready inputs) ops))"
proof -
  have "find P xs \<noteq> None" if "list_ex P xs" for P :: "part \<Rightarrow> bool" and xs
    using that by (auto simp: find_None_iff list_ex_iff)
  then show ?thesis
    by (simp add: addWidget_def run_distinct new_container_distinct)
qed

theorem addWidget_duplicate_noop_witness:
  "list_ex (\<lambda>p. widget_id (wrapped p) = widget_id (ex_widget ''b'')) (c_widgets ex_container)
   \<and> addWidget (ex_widget ''b'') None ex_container = (NullDisposable, ex_container)
   \<and> length (c_widgets (snd (addWidget (ex_widget ''b'') None ex_container))) = 3
   \<and> distinct (wrapped_ids (run ex_container
        [AddWidget (ex_widget ''b'') None, AddWidget (ex_widget ''d'') None]))"
proof -
  have h: "list_ex (\<lambda>p. widget_id (wrapped p) = widget_id (ex_widget ''b'')) (c_widgets ex_container)"
    by (simp add: ex_container_widgets new_part_wrapped ex_widget_def)
  have l: "length (c_widgets ex_container) = 3"
    by (simp add: ex_container_widgets)
  show ?thesis
    using h l addWidget_duplicate_noop[of "ex_widget ''b''" ex_container None "''vc''" ex_dom True
        "[(ex_widget ''a'', Some (ex_ordered 1)), (ex_widget ''b'', Some (ex_ordered 3)),
          (ex_widget ''c'', None)]"
        "[AddWidget (ex_widget ''b'') None, AddWidget (ex_widget ''d'') None]"]
    by (simp add: ex_container_def[symmetric])
qed

text \<open>
  Claim C5. When \<^verbatim>\<open>addWidget\<close> creates a part for a widget with \<^verbatim>\<open>options.order = k\<close>, the
  new part stands immediately before the first existing part whose order is undefined or
  greater than \<open>k\<close>: no part before position \<open>i\<close> is such a part, and the part that was at
  position \<open>i\<close> is one; when there is no such part, \<open>i\<close> is the end of the list.
\<close>

theorem addWidget_order_position:
  assumes "find (\<lambda>p. widget_id (wrapped p) = widget_id w) (c_widgets C) = None"
    and "opt_order os = Some k"
  shows "\<exists>i\<le>length (c_widgets C).
           c_widgets (snd (addWidget w (Some os) C)) =
             take i (c_widgets C)
             @ [new_part w (case widget_description w of Some x \<Rightarrow> x | None \<Rightarrow> widget_id w)
                  (cid C) (Some os)]
             @ drop i (c_widgets C)
           \<and> (\<forall>j<i. \<not> ordered_after k (c_widgets C ! j))
           \<and> (i < length (c_widgets C) \<longrightarrow> ordered_after k (c_widgets C ! i))"
proof (cases "findIndex (ordered_after k) (c_widgets C)")
  case None
  then have "\<forall>j<length (c_widgets C). \<not> ordered_after k (c_widgets C ! j)"
    by (simp add: findIndex_None_iff)
  with None assms show ?thesis
    by (intro exI[of _ "length (c_widgets C)"])
       (simp add: addWidget_def Let_def c_widgets_set_widgets)
next
  case (Some i)
  from findIndex_Some[OF Some] Some assms show ?thesis
    by (intro exI[of _ i])
       (simp add: addWidget_def Let_def c_widgets_set_widgets insertWidget_def)
qed

theorem addWidget_order_position_witness:
  "find (\<lambda>p. widget_id (wrapped p) = widget_id (ex_widget ''n'')) (c_widgets ex_container) = None
   \<and> opt_order (ex_ordered 2) = Some 2
   \<and> wrapped_ids (snd (addWidget (ex_widget ''n'') (Some (ex_ordered 2)) ex_container))
       = [''a'', ''n'', ''b'', ''c'']"
proof -
  let ?ws = "c_widgets ex_container"
  have h1: "find (\<lambda>p. widget_id (wrapped p) = widget_id (ex_widget ''n'')) ?ws = None"
    by (simp add: ex_container_widgets new_part_wrapped ex_widget_def)
  have h2: "opt_order (ex_ordered 2) = Some 2"
    by (simp add: ex_ordered_def)
  from addWidget_order_position[OF h1 h2] obtain i where
    i: "c_widgets (snd (addWidget (ex_widget ''n'') (Some (ex_ordered 2)) ex_container)) =
          take i ?ws @ [new_part (ex_widget ''n'')
             (case widget_description (ex_widget ''n'') of Some x \<Rightarrow> x | None \<Rightarrow> widget_id (ex_widget ''n''))
             (cid ex_container) (Some (ex_ordered 2))] @ drop i ?ws"
    and before: "\<forall>j<i. \<not> ordered_after 2 (?ws ! j)"
    and at: "i < length ?ws \<longrightarrow> ordered_after 2 (?ws ! i)"
    by blast
  have o0: "\<not> ordered_after 2 (?ws ! 0)" and o1: "ordered_after 2 (?ws ! 1)"
    by (simp_all add: ex_container_widgets ordered_after_def new_part_def ex_ordered_def
        no_options_def canHide_def Let_def)
  from before o1 have "\<not> 1 < i" by blast
  moreover have "i \<noteq> 0"
  proof
    assume "i = 0"
    moreover have "length ?ws = 3" by (simp add: ex_container_widgets)
    ultimately show False using at o0 by simp
  qed
  ultimately have "i = 1" by simp
  with i h1 h2 show ?thesis
    by (simp add: wrapped_ids_def ex_container_widgets new_part_wrapped ex_widget_def)
qed

subsection \<open>The collapsed flag\<close>

lemma setPartCollapsed_collapsed:
  "map collapsed (c_widgets (setPartCollapsed index c C)) =
     (map collapsed (c_widgets C))
       [index := (if mounted (c_dom C) = Horizontal \<and> c then collapsed (c_widgets C ! index) else c)]"
proof -
  have lay: "c_widgets (X\<lparr>c_layout := Y\<rparr>) = widgets Y" for X Y
    by (simp add: c_widgets_def)
  have sw: "widgets (c_layout (set_widgets ps X)) = ps" for ps X
    by (simp add: set_widgets_def)
  have uc: "map collapsed (widgets (fst (updateCollapsed L d r a))) = map collapsed (widgets L)" for L d r a
    by (rule updateCollapsed_map) simp
  obtain p' fired where sc: "set_collapsed (mounted (c_dom C)) c (c_widgets C ! index) = (p', fired)"
    by fastforce
  then have cp: "collapsed p' =
      (if mounted (c_dom C) = Horizontal \<and> c then collapsed (c_widgets C ! index) else c)"
    by (auto simp: set_collapsed_def split: if_splits)
  have "map collapsed (c_widgets (setPartCollapsed index c C)) =
        map collapsed ((c_widgets C)[index := p'])"
    using sc by (simp add: setPartCollapsed_def Let_def c_widgets_set_widgets lay sw uc)
  then show ?thesis
    by (simp only: map_update cp)
qed

lemma setPartCollapsed_isHidden:
  "map isHidden (c_widgets (setPartCollapsed index c C)) = map isHidden (c_widgets C)"
  by (rule setPartCollapsed_map) simp_all

lemma setPartCollapsed_part_id:
  "map part_id (c_widgets (setPartCollapsed index c C)) = map part_id (c_widgets C)"
  by (rule setPartCollapsed_map) simp_all

lemma length_setPartCollapsed:
  "length (c_widgets (setPartCollapsed index c C)) = length (c_widgets C)"
  using setPartCollapsed_part_id[of index c C] by (metis length_map)

text \<open>
  Claim C9. When the part for which a visibility-toggle command was registered is live,
  hidden and can be hidden, running the command leaves it visible and not collapsed.
\<close>

theorem toggleVisibilityCommand_shows_expanded:
  assumes "findIndex (\<lambda>p. part_id p = ref) (c_widgets C) = Some index"
    and "isHidden (c_widgets C ! index)"
    and "canHide (c_widgets C ! index)"
  shows "part_id (c_widgets (toggleVisibilityCommand ref C) ! index) = ref
         \<and> \<not> isHidden (c_widgets (toggleVisibilityCommand ref C) ! index)
         \<and> \<not> collapsed (c_widgets (toggleVisibilityCommand ref C) ! index)"
proof -
  from findIndex_Some[OF assms(1)]
  have i: "index < length (c_widgets C)" and r: "part_id (c_widgets C ! index) = ref"
    by simp_all
  define C1 where "C1 = update_part index (setHidden (\<not> isHidden (c_widgets C ! index))) C"
  have w1: "c_widgets C1 = (c_widgets C)[index := setHidden False (c_widgets C ! index)]"
    using assms(2) by (simp add: C1_def update_part_def c_widgets_set_widgets)
  with i have v: "\<not> isHidden (c_widgets C1 ! index)"
    and r1: "part_id (c_widgets C1 ! index) = ref" and i1: "index < length (c_widgets C1)"
    using r by (simp_all add: setHidden_def)
  have res: "toggleVisibilityCommand ref C = setPartCollapsed index False C1"
    using assms v by (simp add: toggleVisibilityCommand_def toggleVisibility_def Let_def C1_def)
  have "map collapsed (c_widgets (setPartCollapsed index False C1)) ! index = False"
    using i1 by (simp add: setPartCollapsed_collapsed)
  then have "collapsed (c_widgets (setPartCollapsed index False C1) ! index) = False"
    using i1 by (simp add: length_setPartCollapsed)
  moreover have "isHidden (c_widgets (setPartCollapsed index False C1) ! index) = isHidden (c_widgets C1 ! index)"
    using nth_map_eq[OF setPartCollapsed_isHidden[of index False C1]] i1
    by (simp add: length_setPartCollapsed)
  moreover have "part_id (c_widgets (setPartCollapsed index False C1) ! index) = part_id (c_widgets C1 ! index)"
    using nth_map_eq[OF setPartCollapsed_part_id[of index False C1]] i1
    by (simp add: length_setPartCollapsed)
  ultimately show ?thesis
    using v r1 by (simp add: res)
qed

lemma ex_hidden_container_widgets:
  "c_widgets ex_hidden_container =
     [\<lparr>wrapped = ex_widget ''a'', partId = ''a'', part_id = ''vc--a'',
       options = no_options\<lparr>opt_initiallyCollapsed := Some True, opt_initiallyHidden := Some True\<rparr>,
       collapsed = True, isHidden = True, uncollapsedSize = None, animatedSize = None\<rparr>]"
  by (simp add: ex_hidden_container_def new_container_def empty_container_def addWidget_def
      c_widgets_def set_widgets_def new_part_def ex_widget_def no_options_def canHide_def
      hide_def setHidden_def Let_def)

theorem toggleVisibilityCommand_shows_expanded_witness:
  "findIndex (\<lambda>p. part_id p = ''vc--a'') (c_widgets ex_hidden_container) = Some 0
   \<and> isHidden (c_widgets ex_hidden_container ! 0)
   \<and> canHide (c_widgets ex_hidden_container ! 0)
   \<and> collapsed (c_widgets ex_hidden_container ! 0)
   \<and> \<not> isHidden (c_widgets (toggleVisibilityCommand ''vc--a'' ex_hidden_container) ! 0)
   \<and> \<not> collapsed (c_widgets (toggleVisibilityCommand ''vc--a'' ex_hidden_container) ! 0)"
proof -
  have h1: "findIndex (\<lambda>p. part_id p = ''vc--a'') (c_widgets ex_hidden_container) = Some 0"
    and h2: "isHidden (c_widgets ex_hidden_container ! 0)"
    and h3: "canHide (c_widgets ex_hidden_container ! 0)"
    and c: "collapsed (c_widgets ex_hidden_container ! 0)"
    by (simp_all add: ex_hidden_container_widgets canHide_def no_options_def)
  from toggleVisibilityCommand_shows_expanded[OF h1 h2 h3] h1 h2 h3 c show ?thesis
    by simp
qed

subsection \<open>Parts that cannot be hidden\<close>

lemma flag_blind_pinned: "flag_blind pinned"
  by (simp add: flag_blind_def pinned_def canHide_def)

lemma pinned_visible: "(canHide p \<or> \<not> isHidden p) = (\<forall>i. pinned p \<noteq> Some (i, True))"
  by (auto simp: pinned_def)

lemma list_all_pinned:
  "list_all (\<lambda>p. canHide p \<or> \<not> isHidden p) ps = (\<forall>x\<in>#mset (map pinned ps). \<forall>i. x \<noteq> Some (i, True))"
  by (auto simp: list_all_iff pinned_visible)

lemma new_part_pinned: "canHide (new_part w pid i opts) \<or> \<not> isHidden (new_part w pid i opts)"
  by (simp add: new_part_def Let_def hide_def setHidden_def canHide_def)

lemma step_pinned:
  assumes "list_all (\<lambda>p. canHide p \<or> \<not> isHidden p) (c_widgets C)"
  shows "list_all (\<lambda>p. canHide p \<or> \<not> isHidden p) (c_widgets (step C op))"
proof (cases op)
  case (AddWidget w opts)
  show ?thesis
  proof (cases "find (\<lambda>p. widget_id (wrapped p) = widget_id w) (c_widgets C)")
    case None
    from addWidget_widgets_mset[OF None, of opts] obtain pid where
      "mset (c_widgets (snd (addWidget w opts C))) = mset (new_part w pid (cid C) opts # c_widgets C)"
      by auto
    then have "set (c_widgets (snd (addWidget w opts C))) = set (new_part w pid (cid C) opts # c_widgets C)"
      by (rule mset_eq_setD)
    with assms new_part_pinned[of w pid "cid C" opts] show ?thesis
      by (simp add: AddWidget list_all_iff)
  next
    case (Some a)
    with assms show ?thesis by (simp add: AddWidget addWidget_def)
  qed
next
  case (RemoveWidget w)
  show ?thesis
  proof (cases "findIndex (\<lambda>p. widget_id (wrapped p) = widget_id w) (c_widgets C)")
    case None
    with assms show ?thesis by (simp add: RemoveWidget removeWidget_def)
  next
    case (Some i)
    have "set (take i (c_widgets C) @ drop (Suc i) (c_widgets C)) \<subseteq> set (c_widgets C)"
      using set_take_subset[of i "c_widgets C"] set_drop_subset[of "Suc i" "c_widgets C"]
      by simp
    with assms have "list_all (\<lambda>p. canHide p \<or> \<not> isHidden p)
        (take i (c_widgets C) @ drop (Suc i) (c_widgets C))"
      unfolding list_all_iff by blast
    then show ?thesis
      by (simp add: RemoveWidget removeWidget_def Some c_widgets_set_widgets)
  qed
next
  case (RestoreState st)
  have "mset (map pinned (c_widgets (step C op))) = mset (map pinned (c_widgets C))"
    by (rule step_blind[OF flag_blind_pinned]) (simp_all add: RestoreState)
  with assms show ?thesis by (simp only: list_all_pinned)
next
  case (ToggleVisibilityCommand r)
  have "mset (map pinned (c_widgets (step C op))) = mset (map pinned (c_widgets C))"
    by (rule step_blind[OF flag_blind_pinned]) (simp_all add: ToggleVisibilityCommand)
  with assms show ?thesis by (simp only: list_all_pinned)
next
  case (GlobalHideCommand a)
  have "mset (map pinned (c_widgets (step C op))) = mset (map pinned (c_widgets C))"
    by (rule step_blind[OF flag_blind_pinned]) (simp_all add: GlobalHideCommand)
  with assms show ?thesis by (simp only: list_all_pinned)
next
  case (MoveBefore a b)
  have "mset (map pinned (c_widgets (step C op))) = mset (map pinned (c_widgets C))"
    by (rule step_blind[OF flag_blind_pinned]) (simp_all add: MoveBefore)
  with assms show ?thesis by (simp only: list_all_pinned)
next
  case (HeaderClick r)
  have "mset (map pinned (c_widgets (step C op))) = mset (map pinned (c_widgets C))"
    by (rule step_blind[OF flag_blind_pinned]) (simp_all add: HeaderClick)
  with assms show ?thesis by (simp only: list_all_pinned)
next
  case (Attach d)
  have "mset (map pinned (c_widgets (step C op))) = mset (map pinned (c_widgets C))"
    by (rule step_blind[OF flag_blind_pinned]) (simp_all add: Attach)
  with assms show ?thesis by (simp only: list_all_pinned)
next
  case Detach
  with assms show ?thesis by (simp add: c_widgets_c_dom)
next
  case (Relayout d)
  with assms show ?thesis by (simp add: c_widgets_c_dom)
next
  case (SetPartSizes ws)
  have "mset (map pinned (c_widgets (step C op))) = mset (map pinned (c_widgets C))"
    by (rule step_blind[OF flag_blind_pinned]) (simp_all add: SetPartSizes)
  with assms show ?thesis by (simp only: list_all_pinned)
qed

lemma run_pinned:
  "list_all (\<lambda>p. canHide p \<or> \<not> isHidden p) (c_widgets C) \<Longrightarrow>
   list_all (\<lambda>p. canHide p \<or> \<not> isHidden p) (c_widgets (run C ops))"
  unfolding run_def by (induction ops arbitrary: C) (simp_all add: step_pinned)

lemma new_container_pinned:
  "list_all (\<lambda>p. canHide p \<or> \<not> isHidden p) (c_widgets (new_container i d ready inputs))"
proof -
  have "list_all (\<lambda>p. canHide p \<or> \<not> isHidden p) (c_widgets C) \<Longrightarrow>
        list_all (\<lambda>p. canHide p \<or> \<not> isHidden p)
          (c_widgets (fold (\<lambda>(w, opts) C. snd (addWidget w opts C)) inputs C))" for C
  proof (induction inputs arbitrary: C)
    case (Cons a inputs)
    obtain w opts where a: "a = (w, opts)" by (cases a)
    from step_pinned[OF Cons.prems, of "AddWidget w opts"] show ?case
      by (simp add: a Cons.IH)
  qed simp
  then show ?thesis
    by (simp add: new_container_def empty_container_def c_widgets_def)
qed

text \<open>
  Claim C8. What is seen of the parts that cannot be hidden (their ids and their hidden
  flags) is the same before and after the global hide command, the visibility toggle of a
  part (called directly or through its command) and \<^verbatim>\<open>restoreState\<close>, which may only
  reorder the parts. In every container that results from the constructor and any
  sequence of operations, a part that cannot be hidden is not hidden.
\<close>

theorem canHide_false_never_hidden:
  "map pinned (c_widgets (globalHideCommand anchor C)) = map pinned (c_widgets C)
   \<and> map pinned (c_widgets (toggleVisibility index C)) = map pinned (c_widgets C)
   \<and> map pinned (c_widgets (toggleVisibilityCommand ref C)) = map pinned (c_widgets C)
   \<and> mset (map pinned (c_widgets (fst (restoreState st C)))) = mset (map pinned (c_widgets C))
   \<and> list_all (\<lambda>p. canHide p \<or> \<not> isHidden p)
        (c_widgets (run (new_container i d ready inputs) ops))"
  using restoreState_blind[OF flag_blind_pinned, of st C]
  by (simp add: globalHideCommand_blind toggleVisibility_blind toggleVisibilityCommand_blind
      flag_blind_pinned run_pinned new_container_pinned)

lemma ex_pinned_container_widgets:
  "c_widgets ex_pinned_container =
     [\<lparr>wrapped = ex_widget ''p'', partId = ''p'', part_id = ''vc--p'',
       options = no_options\<lparr>opt_canHide := Some False, opt_initiallyHidden := Some True\<rparr>,
       collapsed = False, isHidden = False, uncollapsedSize = None, animatedSize = None\<rparr>]"
  by (simp add: ex_pinned_container_def new_container_def empty_container_def addWidget_def
      c_widgets_def set_widgets_def new_part_def ex_widget_def no_options_def canHide_def
      hide_def setHidden_def Let_def)

theorem canHide_false_never_hidden_witness:
  "map pinned (c_widgets ex_pinned_container) = [Some (''vc--p'', False)]
   \<and> map pinned (c_widgets (globalHideCommand (Some ''vc--p'') ex_pinned_container))
       = [Some (''vc--p'', False)]
   \<and> map pinned (c_widgets (toggleVisibility 0 ex_pinned_container)) = [Some (''vc--p'', False)]
   \<and> map pinned (c_widgets (toggleVisibilityCommand ''vc--p'' ex_pinned_container))
       = [Some (''vc--p'', False)]
   \<and> mset (map pinned (c_widgets (fst (restoreState \<lparr>state_parts = Some []\<rparr> ex_pinned_container))))
       = {#Some (''vc--p'', False)#}
   \<and> list_all (\<lambda>p. canHide p \<or> \<not> isHidden p)
        (c_widgets (run ex_pinned_container
           [GlobalHideCommand (Some ''vc--p''), ToggleVisibilityCommand ''vc--p'',
            RestoreState \<lparr>state_parts = Some []\<rparr>]))"
proof -
  have p: "map pinned (c_widgets ex_pinned_container) = [Some (''vc--p'', False)]"
    by (simp add: ex_pinned_container_widgets pinned_def canHide_def no_options_def)
  show ?thesis
    using p canHide_false_never_hidden[of "Some ''vc--p''" ex_pinned_container 0 "''vc--p''"
        "\<lparr>state_parts = Some []\<rparr>" "''vc''" ex_dom True
        "[(ex_widget ''p'',
           Some (no_options\<lparr>opt_canHide := Some False, opt_initiallyHidden := Some True\<rparr>))]"
        "[GlobalHideCommand (Some ''vc--p''), ToggleVisibilityCommand ''vc--p'',
          RestoreState \<lparr>state_parts = Some []\<rparr>]"]
    by (simp add: ex_pinned_container_def[symmetric])
qed

subsection \<open>The target of an expand animation\<close>

lemma filter_single:
  assumes "i < length xs" and "P (xs ! i)"
  shows "(length (filter P xs) = 1) = (\<forall>j<length xs. j \<noteq> i \<longrightarrow> \<not> P (xs ! j))"
proof -
  have xs: "xs = take i xs @ xs ! i # drop (Suc i) xs"
    using assms(1) by (simp add: id_take_nth_drop)
  have "length (filter P xs) = length (filter P (take i xs)) + 1 + length (filter P (drop (Suc i) xs))"
    by (subst xs) (simp add: assms(2))
  then have "(length (filter P xs) = 1) =
      ((\<forall>x\<in>set (take i xs). \<not> P x) \<and> (\<forall>x\<in>set (drop (Suc i) xs). \<not> P x))"
    by (simp add: filter_empty_conv)
  also have "(\<forall>x\<in>set (take i xs). \<not> P x) = (\<forall>j<i. \<not> P (xs ! j))"
  proof
    assume a: "\<forall>x\<in>set (take i xs). \<not> P x"
    show "\<forall>j<i. \<not> P (xs ! j)"
    proof (intro allI impI)
      fix j assume j: "j < i"
      with assms(1) have "take i xs ! j = xs ! j" "j < length (take i xs)" by simp_all
      then have "xs ! j \<in> set (take i xs)" by (metis nth_mem)
      with a show "\<not> P (xs ! j)" by blast
    qed
  next
    assume a: "\<forall>j<i. \<not> P (xs ! j)"
    show "\<forall>x\<in>set (take i xs). \<not> P x"
    proof
      fix x assume "x \<in> set (take i xs)"
      then obtain k where k: "k < length (take i xs)" "x = take i xs ! k"
        by (auto simp: in_set_conv_nth)
      then have "x = xs ! k" "k < i" by simp_all
      with a show "\<not> P x" by simp
    qed
  qed
  also have "(\<forall>x\<in>set (drop (Suc i) xs). \<not> P x) = (\<forall>j<length xs. i < j \<longrightarrow> \<not> P (xs ! j))"
  proof
    assume a: "\<forall>x\<in>set (drop (Suc i) xs). \<not> P x"
    show "\<forall>j<length xs. i < j \<longrightarrow> \<not> P (xs ! j)"
    proof (intro allI impI)
      fix j assume j: "j < length xs" "i < j"
      then have "xs ! j = drop (Suc i) xs ! (j - Suc i)" by simp
      moreover from j have "j - Suc i < length (drop (Suc i) xs)" by simp
      ultimately have "xs ! j \<in> set (drop (Suc i) xs)" by (metis nth_mem)
      with a show "\<not> P (xs ! j)" by blast
    qed
  next
    assume a: "\<forall>j<length xs. i < j \<longrightarrow> \<not> P (xs ! j)"
    show "\<forall>x\<in>set (drop (Suc i) xs). \<not> P x"
    proof
      fix x assume "x \<in> set (drop (Suc i) xs)"
      then obtain k where k: "k < length (drop (Suc i) xs)" "x = drop (Suc i) xs ! k"
        by (auto simp: in_set_conv_nth)
      then have "x = xs ! (Suc i + k)" "Suc i + k < length xs" by simp_all
      with a show "\<not> P x" by simp
    qed
  qed
  finally have split: "(length (filter P xs) = 1) =
      ((\<forall>j<i. \<not> P (xs ! j)) \<and> (\<forall>j<length xs. i < j \<longrightarrow> \<not> P (xs ! j)))" .
  have "((\<forall>j<i. \<not> P (xs ! j)) \<and> (\<forall>j<length xs. i < j \<longrightarrow> \<not> P (xs ! j))) =
        (\<forall>j<length xs. j \<noteq> i \<longrightarrow> \<not> P (xs ! j))"
  proof (intro iffI conjI allI impI)
    fix j assume "(\<forall>j<i. \<not> P (xs ! j)) \<and> (\<forall>j<length xs. i < j \<longrightarrow> \<not> P (xs ! j))"
      and "j < length xs" "j \<noteq> i"
    then show "\<not> P (xs ! j)"
      by (cases "j < i") simp_all
  next
    fix j assume "\<forall>j<length xs. j \<noteq> i \<longrightarrow> \<not> P (xs ! j)" and "j < i"
    with assms(1) show "\<not> P (xs ! j)" by simp
  next
    fix j assume "\<forall>j<length xs. j \<noteq> i \<longrightarrow> \<not> P (xs ! j)" and "j < length xs" "i < j"
    then show "\<not> P (xs ! j)" by simp
  qed
  with split show ?thesis by simp
qed

lemma updateCollapsed_expand:
  assumes "findIndex (\<lambda>p. part_id p = ref) (widgets L) = Some index"
    and "parent_isAttached L \<noteq> None"
    and "\<not> isHidden (widgets L ! index)"
    and "\<not> collapsed (widgets L ! index)"
    and "0 < animationDuration L"
  shows "updateCollapsed L d ref True =
           (L, Animate Expand
                 (if \<forall>j<length (widgets L). j \<noteq> index \<longrightarrow>
                        collapsed (widgets L ! j) \<or> isHidden (widgets L ! j)
                  then max (max (weight_or (uncollapsedSize (widgets L ! index)) 0 - headerSize L)
                              (minSize d (widgets L ! index)))
                         (getAvailableSize L d)
                  else max (weight_or (uncollapsedSize (widgets L ! index)) 0 - headerSize L)
                         (minSize d (widgets L ! index))))"
proof -
  from findIndex_Some[OF assms(1)] have i: "index < length (widgets L)" by simp
  have ev: "isExpandedVisible (widgets L ! index)"
    using assms(3,4) by (simp add: isExpandedVisible_def)
  define alone where "alone \<longleftrightarrow>
      (\<forall>j<length (widgets L). j \<noteq> index \<longrightarrow> collapsed (widgets L ! j) \<or> isHidden (widgets L ! j))"
  define base where
    "base = max (weight_or (uncollapsedSize (widgets L ! index)) 0 - headerSize L)
              (minSize d (widgets L ! index))"
  have one: "(length (filter isExpandedVisible (widgets L)) = 1) = alone"
    using filter_single[OF i, of isExpandedVisible] ev by (simp add: isExpandedVisible_def alone_def)
  have p: "parent_isAttached L = None \<longleftrightarrow> False"
    using assms(2) by simp
  have raw: "updateCollapsed L d ref True =
      (L, Animate Expand (if length (filter isExpandedVisible (widgets L)) = 1
                          then max base (getAvailableSize L d) else base))"
    unfolding updateCollapsed_def Let_def base_def
    using assms(3,4,5) by (simp add: assms(1) p)
  show ?thesis
    unfolding raw one unfolding alone_def base_def ..
qed

lemma updateCollapsed_expand_only:
  assumes "snd (updateCollapsed L d ref enableAnimation) = Animate Expand fullSize"
  shows "\<exists>index. findIndex (\<lambda>p. part_id p = ref) (widgets L) = Some index
           \<and> parent_isAttached L \<noteq> None
           \<and> \<not> isHidden (widgets L ! index) \<and> \<not> collapsed (widgets L ! index)
           \<and> enableAnimation \<and> 0 < animationDuration L"
proof (cases "findIndex (\<lambda>p. part_id p = ref) (widgets L)")
  case None
  with assms show ?thesis by (simp add: updateCollapsed_def)
next
  case (Some index)
  let ?p = "widgets L ! index"
  have 1: "parent_isAttached L \<noteq> None \<and> \<not> isHidden ?p"
    using assms Some by (auto simp: updateCollapsed_def Let_def split: if_splits)
  have 2: "enableAnimation \<and> 0 < animationDuration L"
    using assms Some 1 by (auto simp: updateCollapsed_def Let_def split: if_splits)
  have 3: "\<not> collapsed ?p"
    using assms Some 1 2 by (auto simp: updateCollapsed_def Let_def split: if_splits)
  from Some 1 2 3 show ?thesis by simp
qed

text \<open>
  Claim C7. \<^verbatim>\<open>updateCollapsed\<close> starts an expand animation exactly when it is called with
  animation enabled and a positive duration for a live, visible part that is not collapsed
  in a layout with a parent. The target of the animation is the larger of
  \<open>uncollapsedSize\<close> (0 when it is undefined) minus the header size and the minimum size
  of the part; when the part is the only expanded and visible one, that is, when every
  other part is collapsed or hidden, the target is the larger of this value and the
  available size, and so at least the available size.
\<close>

theorem updateCollapsed_expand_target:
  "snd (updateCollapsed L d ref enableAnimation) = Animate Expand fullSize \<longleftrightarrow>
     (\<exists>index. findIndex (\<lambda>p. part_id p = ref) (widgets L) = Some index
        \<and> parent_isAttached L \<noteq> None
        \<and> \<not> isHidden (widgets L ! index) \<and> \<not> collapsed (widgets L ! index)
        \<and> enableAnimation \<and> 0 < animationDuration L
        \<and> fullSize =
            (if \<forall>j<length (widgets L). j \<noteq> index \<longrightarrow>
                  collapsed (widgets L ! j) \<or> isHidden (widgets L ! j)
             then max (max (weight_or (uncollapsedSize (widgets L ! index)) 0 - headerSize L)
                         (minSize d (widgets L ! index)))
                    (getAvailableSize L d)
             else max (weight_or (uncollapsedSize (widgets L ! index)) 0 - headerSize L)
                    (minSize d (widgets L ! index))))"
  (is "?lhs \<longleftrightarrow> ?rhs")
proof
  assume l: ?lhs
  from updateCollapsed_expand_only[OF l] obtain index where
    c: "findIndex (\<lambda>p. part_id p = ref) (widgets L) = Some index"
       "parent_isAttached L \<noteq> None" "\<not> isHidden (widgets L ! index)"
       "\<not> collapsed (widgets L ! index)" "enableAnimation" "0 < animationDuration L"
    by blast
  from updateCollapsed_expand[OF c(1,2,3,4,6), of d] l c(5) have "fullSize =
            (if \<forall>j<length (widgets L). j \<noteq> index \<longrightarrow>
                  collapsed (widgets L ! j) \<or> isHidden (widgets L ! j)
             then max (max (weight_or (uncollapsedSize (widgets L ! index)) 0 - headerSize L)
                         (minSize d (widgets L ! index)))
                    (getAvailableSize L d)
             else max (weight_or (uncollapsedSize (widgets L ! index)) 0 - headerSize L)
                    (minSize d (widgets L ! index)))"
    by simp
  with c show ?rhs by blast
next
  assume ?rhs
  then obtain index where
    c: "findIndex (\<lambda>p. part_id p = ref) (widgets L) = Some index"
       "parent_isAttached L \<noteq> None" "\<not> isHidden (widgets L ! index)"
       "\<not> collapsed (widgets L ! index)" "enableAnimation" "0 < animationDuration L"
    and f: "fullSize =
            (if \<forall>j<length (widgets L). j \<noteq> index \<longrightarrow>
                  collapsed (widgets L ! j) \<or> isHidden (widgets L ! j)
             then max (max (weight_or (uncollapsedSize (widgets L ! index)) 0 - headerSize L)
                         (minSize d (widgets L ! index)))
                    (getAvailableSize L d)
             else max (weight_or (uncollapsedSize (widgets L ! index)) 0 - headerSize L)
                    (minSize d (widgets L ! index)))"
    by blast
  from updateCollapsed_expand[OF c(1,2,3,4,6), of d] c(5) f show ?lhs
    by simp
qed

theorem updateCollapsed_expand_target_witness:
  "snd (updateCollapsed (ex_layout [ex_part ''a'' False False (Some 100), ex_part ''b'' True False None])
         ex_dom ''vc--a'' True) = Animate Expand 1024
   \<and> getAvailableSize (ex_layout [ex_part ''a'' False False (Some 100), ex_part ''b'' True False None])
         ex_dom = 1024"
proof -
  let ?L = "ex_layout [ex_part ''a'' False False (Some 100), ex_part ''b'' True False None]"
  have h1: "findIndex (\<lambda>p. part_id p = ''vc--a'') (widgets ?L) = Some 0"
    by (simp add: ex_layout_def ex_part_def)
  have h2: "parent_isAttached ?L \<noteq> None"
    and h3: "\<not> isHidden (widgets ?L ! 0)"
    and h4: "\<not> collapsed (widgets ?L ! 0)"
    and h5: "0 < animationDuration ?L"
    by (simp_all add: ex_layout_def ex_part_def)
  have alone: "\<forall>j<length (widgets ?L). j \<noteq> 0 \<longrightarrow> collapsed (widgets ?L ! j) \<or> isHidden (widgets ?L ! j)"
    by (simp add: ex_layout_def ex_part_def nth_Cons split: nat.splits)
  have avail: "getAvailableSize ?L ex_dom = 1024"
    by (simp add: getAvailableSize_def ex_layout_def ex_part_def ex_dom_def Let_def)
  have base: "max (weight_or (uncollapsedSize (widgets ?L ! 0)) 0 - headerSize ?L)
                (minSize ex_dom (widgets ?L ! 0)) = 78"
    by (simp add: ex_layout_def ex_part_def ex_dom_def weight_or_def minSize_def)
  have "\<exists>index. findIndex (\<lambda>p. part_id p = ''vc--a'') (widgets ?L) = Some index
        \<and> parent_isAttached ?L \<noteq> None
        \<and> \<not> isHidden (widgets ?L ! index) \<and> \<not> collapsed (widgets ?L ! index)
        \<and> True \<and> 0 < animationDuration ?L
        \<and> (1024::real) =
            (if \<forall>j<length (widgets ?L). j \<noteq> index \<longrightarrow>
                  collapsed (widgets ?L ! j) \<or> isHidden (widgets ?L ! j)
             then max (max (weight_or (uncollapsedSize (widgets ?L ! index)) 0 - headerSize ?L)
                         (minSize ex_dom (widgets ?L ! index)))
                    (getAvailableSize ?L ex_dom)
             else max (weight_or (uncollapsedSize (widgets ?L ! index)) 0 - headerSize ?L)
                    (minSize ex_dom (widgets ?L ! index)))"
    using h1 h2 h3 h4 h5 alone by (intro exI[of _ 0]) (simp add: avail base)
  then have "snd (updateCollapsed ?L ex_dom ''vc--a'' True) = Animate Expand 1024"
    by (simp only: updateCollapsed_expand_target[of ?L ex_dom "''vc--a''" True 1024])
  with avail show ?thesis by simp
qed

subsection \<open>Collapsed parts and the horizontal orientation\<close>

text \<open>The setter refuses to collapse a part whose node is mounted horizontally.\<close>

lemma set_collapsed_horizontal: "set_collapsed Horizontal True p = (p, False)"
  by (simp add: set_collapsed_def)

lemma fold_uncollapse:
  "k \<le> length (c_widgets C) \<Longrightarrow>
   map collapsed (c_widgets (fold (\<lambda>index. setPartCollapsed index False) [0..<k] C)) =
     replicate k False @ drop k (map collapsed (c_widgets C))"
proof (induction k)
  case 0
  then show ?case by simp
next
  case (Suc k)
  let ?X = "fold (\<lambda>index. setPartCollapsed index False) [0..<k] C"
  from Suc have IH: "map collapsed (c_widgets ?X) = replicate k False @ drop k (map collapsed (c_widgets C))"
    by simp
  from Suc.prems have "k < length (map collapsed (c_widgets C))"
    by simp
  from Cons_nth_drop_Suc[OF this, symmetric]
  have "(replicate k False @ drop k (map collapsed (c_widgets C)))[k := False] =
      replicate (Suc k) False @ drop (Suc k) (map collapsed (c_widgets C))"
    by (simp add: list_update_append replicate_append_same)
  then show ?case
    by (simp add: setPartCollapsed_collapsed IH)
qed

text \<open>After \<^verbatim>\<open>onAfterAttach\<close> in a horizontal orientation no part is collapsed.\<close>

lemma onAfterAttach_horizontal:
  assumes "mounted (c_dom C) = Horizontal"
  shows "list_all (\<lambda>p. \<not> collapsed p) (c_widgets (onAfterAttach C))"
proof -
  have lay: "c_widgets (X\<lparr>c_layout := (c_layout X)\<lparr>l_orientation := z\<rparr>\<rparr>) = c_widgets X"
    "c_widgets (X\<lparr>c_layout := (c_layout X)\<lparr>parent_isAttached := y\<rparr>\<rparr>) = c_widgets X" for X z y
    by (simp_all add: c_widgets_def)
  have "map collapsed (c_widgets (onAfterAttach C)) = replicate (length (c_widgets C)) False"
    using assms fold_uncollapse[of "length (c_widgets C)"
        "C\<lparr>c_layout := (c_layout C)\<lparr>l_orientation := Horizontal\<rparr>\<rparr>"]
    by (simp add: onAfterAttach_def Let_def lay)
  then have "\<forall>x\<in>set (map collapsed (c_widgets (onAfterAttach C))). x = False"
    by simp
  then show ?thesis
    by (simp add: list_all_iff)
qed

text \<open>
  Claim C3. The claim fails on the code: a part that is created with
  \<^verbatim>\<open>initiallyCollapsed\<close> is collapsed by its constructor, whose setter looks at the
  orientation of the node of the new part, which is not mounted yet and so resolves to
  vertical. When the container is mounted horizontally at that time, the new part stays
  collapsed in a horizontal container.
\<close>

theorem addWidget_collapsed_in_horizontal:
  "mounted (c_dom ex_horizontal_container) = Horizontal
   \<and> l_orientation (c_layout ex_horizontal_container) = Horizontal
   \<and> map collapsed (c_widgets ex_horizontal_container) = [True]"
  by (simp add: ex_horizontal_container_def run_def new_container_def empty_container_def
      onAfterAttach_def addWidget_def c_widgets_def set_widgets_def new_part_def
      no_options_def canHide_def Let_def)

subsection \<open>Restoring a stored state\<close>

lemma fold_pointwise:
  assumes "\<And>i X. I X \<Longrightarrow> i < length (\<phi> X) \<Longrightarrow> \<phi> (g i X) = (\<phi> X)[i := h (\<phi> X ! i)] \<and> I (g i X)"
  shows "I X \<Longrightarrow> k \<le> length (\<phi> X) \<Longrightarrow>
         \<phi> (fold g [0..<k] X) = map h (take k (\<phi> X)) @ drop k (\<phi> X) \<and> I (fold g [0..<k] X)"
proof (induction k)
  case 0
  then show ?case by simp
next
  case (Suc k)
  let ?Y = "fold g [0..<k] X"
  from Suc have IH: "\<phi> ?Y = map h (take k (\<phi> X)) @ drop k (\<phi> X)" and IY: "I ?Y"
    by simp_all
  from Suc.prems have k: "k < length (\<phi> X)" by simp
  then have len: "length (\<phi> ?Y) = length (\<phi> X)" by (simp add: IH)
  with k have kY: "k < length (\<phi> ?Y)" by simp
  from assms[OF IY kY] have st: "\<phi> (g k ?Y) = (\<phi> ?Y)[k := h (\<phi> ?Y ! k)]" and I': "I (g k ?Y)"
    by simp_all
  have at: "\<phi> ?Y ! k = \<phi> X ! k"
    using k by (simp add: IH nth_append)
  have "(map h (take k (\<phi> X)) @ drop k (\<phi> X))[k := h (\<phi> X ! k)] =
        map h (take (Suc k) (\<phi> X)) @ drop (Suc k) (\<phi> X)"
    using k Cons_nth_drop_Suc[OF k, symmetric]
    by (simp add: list_update_append take_Suc_conv_app_nth)
  with st at I' show ?case
    by (simp add: IH)
qed

lemma setPartCollapsed_view:
  assumes "\<And>p u. f (p\<lparr>uncollapsedSize := u\<rparr>) = f p"
  shows "map f (c_widgets (setPartCollapsed index c C)) =
     (map f (c_widgets C))
       [index := f ((c_widgets C ! index)\<lparr>collapsed :=
           (if mounted (c_dom C) = Horizontal \<and> c then collapsed (c_widgets C ! index) else c)\<rparr>)]"
proof -
  have lay: "c_widgets (X\<lparr>c_layout := Y\<rparr>) = widgets Y" for X Y
    by (simp add: c_widgets_def)
  have sw: "widgets (c_layout (set_widgets ps X)) = ps" for ps X
    by (simp add: set_widgets_def)
  have uc: "map f (widgets (fst (updateCollapsed L d r a))) = map f (widgets L)" for L d r a
    by (rule updateCollapsed_map) (rule assms)
  obtain p' fired where sc: "set_collapsed (mounted (c_dom C)) c (c_widgets C ! index) = (p', fired)"
    by fastforce
  then have cp: "p' = (c_widgets C ! index)\<lparr>collapsed :=
      (if mounted (c_dom C) = Horizontal \<and> c then collapsed (c_widgets C ! index) else c)\<rparr>"
    by (auto simp: set_collapsed_def split: if_splits)
  have "map f (c_widgets (setPartCollapsed index c C)) = map f ((c_widgets C)[index := p'])"
    using sc by (simp add: setPartCollapsed_def Let_def c_widgets_set_widgets lay sw uc)
  then show ?thesis
    by (simp only: map_update cp)
qed

lemma persistent_blind: "persistent (p\<lparr>uncollapsedSize := u\<rparr>) = persistent p"
  by (simp add: persistent_def)

lemma restored_persistent:
  "restored orient sps (persistent p) = persistent (restored orient sps p)"
  by (auto simp: restored_def persistent_def canHide_def hide_def setHidden_def split: option.splits)

lemma restorePart_view:
  assumes "index < length (c_widgets C)"
  shows "map persistent (c_widgets (restorePart sps index C)) =
     (map persistent (c_widgets C))
       [index := restored (mounted (c_dom C)) sps (map persistent (c_widgets C) ! index)]"
proof -
  let ?p = "c_widgets C ! index"
  let ?o = "mounted (c_dom C)"
  have goal: "restored ?o sps (map persistent (c_widgets C) ! index) = persistent (restored ?o sps ?p)"
    using assms by (simp add: restored_persistent)
  show ?thesis
  proof (cases "find (\<lambda>s. partId ?p = ps_partId s) sps")
    case None
    then have "restorePart sps index C = (if canHide ?p then update_part index hide C else C)"
      by (simp add: restorePart_def Let_def)
    moreover have "restored ?o sps ?p = (if canHide ?p then hide ?p else ?p)"
      using None by (simp add: restored_def)
    moreover have "map persistent (c_widgets C) = (map persistent (c_widgets C))[index := persistent ?p]"
      using assms by (metis list_update_id nth_map)
    ultimately show ?thesis
      unfolding goal by (simp add: update_part_def c_widgets_set_widgets map_update)
  next
    case (Some s)
    define t where "t = (ps_collapsed s \<or> \<not> truthy (ps_relativeSize s))"
    define n where "n = (if ?o = Horizontal \<and> t then collapsed ?p else t)"
    define C1 where "C1 = setPartCollapsed index t C"
    have m1: "map persistent (c_widgets C1) = (map persistent (c_widgets C))[index := persistent (?p\<lparr>collapsed := n\<rparr>)]"
      unfolding C1_def n_def by (rule setPartCollapsed_view) (rule persistent_blind)
    have rp: "restorePart sps index C =
        (if canHide ?p then update_part index (setHidden (ps_hidden s)) C1 else C1)"
      using Some by (simp add: restorePart_def Let_def C1_def t_def)
    have len1: "index < length (c_widgets C1)"
      using assms by (simp add: C1_def length_setPartCollapsed)
    from m1 assms len1 have at1: "persistent (c_widgets C1 ! index) = persistent (?p\<lparr>collapsed := n\<rparr>)"
      by (metis length_map nth_list_update_eq nth_map)
    have ph: "persistent (setHidden h q) = setHidden h (persistent q)" for h q
      by (simp add: persistent_def setHidden_def)
    have r: "restored ?o sps ?p = ?p\<lparr>collapsed := n, isHidden := (if canHide ?p then ps_hidden s else isHidden ?p)\<rparr>"
      unfolding restored_def n_def t_def Some by simp
    have e: "setHidden h (persistent (?p\<lparr>collapsed := n\<rparr>)) =
        persistent (?p\<lparr>collapsed := n, isHidden := h\<rparr>)" for h
      by (simp add: setHidden_def persistent_def)
    show ?thesis
    proof (cases "canHide ?p")
      case True
      have "map persistent (c_widgets (update_part index (setHidden (ps_hidden s)) C1)) =
            (map persistent (c_widgets C1))[index := setHidden (ps_hidden s) (persistent (?p\<lparr>collapsed := n\<rparr>))]"
        by (simp add: update_part_def c_widgets_set_widgets map_update ph at1)
      also have "\<dots> = (map persistent (c_widgets C))
          [index := persistent (?p\<lparr>collapsed := n, isHidden := ps_hidden s\<rparr>)]"
        by (simp only: m1 e list_update_overwrite)
      finally show ?thesis
        unfolding goal rp r using True by simp
    next
      case False
      then show ?thesis
        unfolding goal rp r by (simp add: m1)
    qed
  qed
qed

lemma restorePart_dom: "c_dom (restorePart sps index C) = c_dom C"
  by (simp add: restorePart_def Let_def setPartCollapsed_rest update_part_def c_dom_set_widgets
      split: option.splits)

lemma fold_restorePart:
  "map persistent (c_widgets (fold (restorePart sps) [0..<length (c_widgets C)] C)) =
     map (restored (mounted (c_dom C)) sps) (map persistent (c_widgets C))"
proof -
  have "map persistent (c_widgets (fold (restorePart sps) [0..<length (c_widgets C)] C)) =
          map (restored (mounted (c_dom C)) sps) (take (length (c_widgets C)) (map persistent (c_widgets C)))
          @ drop (length (c_widgets C)) (map persistent (c_widgets C))
        \<and> c_dom (fold (restorePart sps) [0..<length (c_widgets C)] C) = c_dom C"
  proof (rule fold_pointwise[where \<phi> = "\<lambda>X. map persistent (c_widgets X)"
          and I = "\<lambda>X. c_dom X = c_dom C" and g = "restorePart sps"
          and h = "restored (mounted (c_dom C)) sps"])
    fix i X
    assume "c_dom X = c_dom C" and "i < length (map persistent (c_widgets X))"
    then show "map persistent (c_widgets (restorePart sps i X)) =
        (map persistent (c_widgets X))[i := restored (mounted (c_dom C)) sps (map persistent (c_widgets X) ! i)]
        \<and> c_dom (restorePart sps i X) = c_dom C"
      using restorePart_view[of i X sps] by (simp add: restorePart_dom)
  qed simp_all
  then show ?thesis by simp
qed

lemma find_filter:
  assumes "\<And>x. P x \<Longrightarrow> Q x"
  shows "find P (filter Q xs) = find P xs"
  using assms by (induction xs) auto

text \<open>
  Claim C6, amended. The stored entries whose \<open>partId\<close> matches no live part play no role.
  The live parts after \<^verbatim>\<open>restoreState\<close> are the live parts before it, in some order, each
  changed as \<open>restored\<close> tells (sizes apart): with a stored entry, the part is collapsed
  when the entry says so or has no or a zero relative size, except that in a horizontal
  orientation a part is not collapsed by this; it takes the stored hidden flag when it
  can be hidden. Without a stored entry the part is hidden when it can be hidden and is
  left as it is otherwise.
\<close>

theorem restoreState_flags:
  assumes "state_parts st = Some sps"
  shows "restoreState st C =
           restoreState (st\<lparr>state_parts :=
              Some (filter (\<lambda>s. list_ex (\<lambda>p. partId p = ps_partId s) (c_widgets C)) sps)\<rparr>) C
         \<and> (\<exists>ps. mset ps = mset (c_widgets C)
               \<and> map persistent (c_widgets (fst (restoreState st C))) =
                   map (\<lambda>p. persistent (restored (mounted (c_dom C)) sps p)) ps)"
proof
  show "restoreState st C =
           restoreState (st\<lparr>state_parts :=
              Some (filter (\<lambda>s. list_ex (\<lambda>p. partId p = ps_partId s) (c_widgets C)) sps)\<rparr>) C"
    using assms by (simp add: restoreState_def)
next
  define live where "live = (\<lambda>s::part_state. list_ex (\<lambda>p. partId p = ps_partId s) (c_widgets C))"
  define partStates where "partStates = filter live sps"
  define ps where "ps = reorder partStates 0 (c_widgets C)"
  define C1 where "C1 = set_widgets ps C"
  have m: "mset ps = mset (c_widgets C)"
    by (simp add: ps_def mset_reorder)
  have w1: "c_widgets C1 = ps" and d1: "c_dom C1 = c_dom C"
    by (simp_all add: C1_def c_widgets_set_widgets c_dom_set_widgets)
  have res: "fst (restoreState st C) = fold (restorePart partStates) [0..<length (c_widgets C1)] C1"
    using assms by (simp add: restoreState_def Let_def partStates_def live_def ps_def C1_def)
  have "map persistent (c_widgets (fst (restoreState st C))) =
        map (restored (mounted (c_dom C)) partStates) (map persistent ps)"
    unfolding res using fold_restorePart[of partStates C1] by (simp add: w1 d1)
  also have "\<dots> = map (\<lambda>p. persistent (restored (mounted (c_dom C)) partStates p)) ps"
    by (simp add: restored_persistent)
  also have "\<dots> = map (\<lambda>p. persistent (restored (mounted (c_dom C)) sps p)) ps"
  proof (rule map_cong[OF refl])
    fix p assume "p \<in> set ps"
    with m have p: "p \<in> set (c_widgets C)" by (metis mset_eq_setD)
    have "find (\<lambda>s. partId p = ps_partId s) (filter live sps) = find (\<lambda>s. partId p = ps_partId s) sps"
      by (rule find_filter) (use p in \<open>auto simp: live_def list_ex_iff\<close>)
    then show "persistent (restored (mounted (c_dom C)) partStates p) =
               persistent (restored (mounted (c_dom C)) sps p)"
      by (simp add: restored_def partStates_def)
  qed
  finally show "\<exists>ps. mset ps = mset (c_widgets C)
               \<and> map persistent (c_widgets (fst (restoreState st C))) =
                   map (\<lambda>p. persistent (restored (mounted (c_dom C)) sps p)) ps"
    using m by blast
qed

lemmas ex_eval =
  new_container_def empty_container_def addWidget_def onAfterAttach_def
  c_widgets_def set_widgets_def update_part_def new_part_def ex_widget_def no_options_def
  canHide_def hide_def setHidden_def insertWidget_def ordered_after_def ex_dom_def
  restoreState_def restorePart_def setPartCollapsed_def set_collapsed_def updateCollapsed_def
  isExpandedVisible_def getAvailableSize_def getPartSize_def minSize_def weight_or_def
  truthy_def storeState_def storePart_def HEADER_HEIGHT_def ex_entry_def moveWidget_def Let_def

theorem restoreState_flags_witness:
  "state_parts ex_state = Some [ex_entry ''zz'' False False (Some (1 / 2)),
                                ex_entry ''b'' False True (Some (1 / 2)),
                                ex_entry ''a'' True False None]
   \<and> (\<exists>ps. mset ps = mset (c_widgets ex_container)
         \<and> map persistent (c_widgets (fst (restoreState ex_state ex_container))) =
             map (\<lambda>p. persistent (restored Vertical
                    [ex_entry ''zz'' False False (Some (1 / 2)),
                     ex_entry ''b'' False True (Some (1 / 2)),
                     ex_entry ''a'' True False None] p)) ps)"
proof -
  have h: "state_parts ex_state = Some [ex_entry ''zz'' False False (Some (1 / 2)),
                                ex_entry ''b'' False True (Some (1 / 2)),
                                ex_entry ''a'' True False None]"
    by (simp add: ex_state_def)
  have o: "mounted (c_dom ex_container) = Vertical"
    by (simp add: ex_container_def new_container_def empty_container_def addWidget_def
        set_widgets_def Let_def)
  from restoreState_flags[OF h, of ex_container] h show ?thesis
    unfolding o by blast
qed

text \<open>
  The claim as stated fails at two inputs. In a container mounted horizontally, a stored
  entry with \<open>collapsed = true\<close> leaves the part expanded. In a container mounted
  vertically, a stored entry with \<open>collapsed = false\<close> and the relative size 0 (which is
  not absent) collapses the part.
\<close>

theorem restoreState_collapsed_counterexample:
  "map collapsed (c_widgets (fst (restoreState
       \<lparr>state_parts = Some [ex_entry ''a'' True False (Some (1 / 2))]\<rparr> ex_single_horizontal)))
     = [False]
   \<and> (ps_collapsed (ex_entry ''a'' True False (Some (1 / 2)))
        \<or> ps_relativeSize (ex_entry ''a'' True False (Some (1 / 2))) = None) = True
   \<and> map collapsed (c_widgets (fst (restoreState
       \<lparr>state_parts = Some [ex_entry ''a'' False False (Some 0)]\<rparr> ex_single_vertical)))
     = [True]
   \<and> (ps_collapsed (ex_entry ''a'' False False (Some 0))
        \<or> ps_relativeSize (ex_entry ''a'' False False (Some 0)) = None) = False"
  by (simp add: ex_single_horizontal_def ex_single_vertical_def ex_eval)

subsection \<open>Storing and restoring\<close>

lemma stored_entry_simps:
  "ps_partId (stored_entry C p) = partId p"
  "ps_collapsed (stored_entry C p) = collapsed p"
  "ps_hidden (stored_entry C p) = isHidden p"
  by (simp_all add: stored_entry_def storePart_def Let_def)

lemma storeState_parts: "state_parts (storeState C) = Some (map (stored_entry C) (c_widgets C))"
  by (simp add: storeState_def stored_entry_def)

lemma reorder_stored:
  assumes "\<And>p. ps_partId (e p) = partId p"
  shows "ss = map e (drop k ws) \<Longrightarrow> reorder ss k ws = ws"
proof (induction ss arbitrary: k)
  case Nil
  then show ?case by simp
next
  case (Cons s ss)
  from Cons.prems have k: "k < length ws"
    by (cases "k < length ws") simp_all
  with Cons.prems have s: "s = e (ws ! k)" and ss: "ss = map e (drop (Suc k) ws)"
    by (simp_all add: Cons_nth_drop_Suc[symmetric])
  have "partId (ws ! k) = ps_partId s"
    by (simp add: s assms)
  with findIndex_le[of k ws "\<lambda>p. partId p = ps_partId s"] k
  obtain i where "i \<le> k" "findIndex (\<lambda>p. partId p = ps_partId s) ws = Some i"
    by auto
  then show ?case
    using Cons.IH[OF ss] by simp
qed

lemma find_stored:
  assumes "\<And>p. ps_partId (e p) = partId p"
  shows "distinct (map partId ws) \<Longrightarrow> p \<in> set ws \<Longrightarrow>
         find (\<lambda>s. partId p = ps_partId s) (map e ws) = Some (e p)"
proof (induction ws)
  case Nil
  then show ?case by simp
next
  case (Cons a ws)
  show ?case
  proof (cases "partId p = partId a")
    case True
    have "p = a"
    proof (rule ccontr)
      assume "p \<noteq> a"
      with Cons.prems(2) have "p \<in> set ws" by simp
      then have "partId p \<in> set (map partId ws)" by simp
      with True Cons.prems(1) show False by simp
    qed
    then show ?thesis by (simp add: assms)
  next
    case False
    with Cons show ?thesis by (auto simp: assms)
  qed
qed

lemma fold_fixed: "(\<And>i. i \<in> set js \<Longrightarrow> g i X = X) \<Longrightarrow> fold g js X = X"
  by (induction js) simp_all

lemma set_widgets_same: "ps = c_widgets C \<Longrightarrow> set_widgets ps C = C"
  by (simp add: set_widgets_def c_widgets_def)

text \<open>
  Claim C2, amended. When the \<open>partId\<close>s of the live parts are pairwise distinct, and the
  container is mounted horizontally or every part that is not collapsed is stored with a
  relative size (which is there and not zero), \<^verbatim>\<open>restoreState(storeState())\<close> leaves the
  container as it is: the same parts in the same order with the same flags.
\<close>

theorem restoreState_storeState:
  assumes "distinct (map partId (c_widgets C))"
    and "mounted (c_dom C) = Horizontal
         \<or> list_all (\<lambda>p. collapsed p \<or> truthy (ps_relativeSize (stored_entry C p))) (c_widgets C)"
  shows "fst (restoreState (storeState C) C) = C"
proof -
  let ?ws = "c_widgets C"
  let ?sps = "map (stored_entry C) ?ws"
  have live: "filter (\<lambda>s. list_ex (\<lambda>p. partId p = ps_partId s) ?ws) ?sps = ?sps"
    by (rule filter_True) (auto simp: list_ex_iff stored_entry_simps)
  have ro: "reorder ?sps 0 ?ws = ?ws"
    by (rule reorder_stored[where e = "stored_entry C"]) (simp_all add: stored_entry_simps)
  have fixed: "restorePart ?sps i C = C" if i: "i < length ?ws" for i
  proof -
    let ?p = "?ws ! i"
    let ?t = "collapsed ?p \<or> \<not> truthy (ps_relativeSize (stored_entry C ?p))"
    from i have mem: "?p \<in> set ?ws" by simp
    have f: "find (\<lambda>s. partId ?p = ps_partId s) ?sps = Some (stored_entry C ?p)"
      by (rule find_stored[OF _ assms(1) mem]) (simp add: stored_entry_simps)
    from assms(2) mem have "mounted (c_dom C) = Horizontal \<or> ?t = collapsed ?p"
      by (auto simp: list_all_iff)
    then have "set_collapsed (mounted (c_dom C)) ?t ?p = (?p, False)"
      by (auto simp: set_collapsed_def)
    then have sc: "setPartCollapsed i ?t C = C"
      by (simp add: setPartCollapsed_def set_widgets_same)
    have "update_part i (setHidden (isHidden ?p)) C = C"
      by (simp add: update_part_def setHidden_def set_widgets_same)
    with sc f show ?thesis
      by (simp add: restorePart_def Let_def stored_entry_simps)
  qed
  have "fold (restorePart ?sps) [0..<length ?ws] C = C"
    by (rule fold_fixed) (simp add: fixed)
  then show ?thesis
    by (simp add: restoreState_def storeState_parts live ro set_widgets_same Let_def)
qed

lemma ex_attached_container_widgets:
  "c_widgets ex_attached_container = c_widgets ex_container"
  by (simp add: ex_attached_container_def onAfterAttach_def ex_dom_def c_widgets_def Let_def)

theorem restoreState_storeState_witness:
  "distinct (map partId (c_widgets ex_attached_container))
   \<and> list_all (\<lambda>p. collapsed p \<or> truthy (ps_relativeSize (stored_entry ex_attached_container p)))
        (c_widgets ex_attached_container)
   \<and> fst (restoreState (storeState ex_attached_container) ex_attached_container)
       = ex_attached_container"
proof -
  have h1: "distinct (map partId (c_widgets ex_attached_container))"
    by (simp add: ex_attached_container_widgets ex_container_widgets new_part_def Let_def
        canHide_def hide_def setHidden_def ex_ordered_def no_options_def)
  have h2: "list_all (\<lambda>p. collapsed p \<or> truthy (ps_relativeSize (stored_entry ex_attached_container p)))
        (c_widgets ex_attached_container)"
    by (simp add: stored_entry_def ex_attached_container_def ex_container_def ex_ordered_def
        ex_eval)
  from restoreState_storeState[OF h1 disjI2[OF h2]] h1 h2 show ?thesis
    by simp
qed

text \<open>
  The claim as stated fails for a container that is mounted vertically in a panel that is
  not displayed, so that all extents are zero: its expanded part is stored without a
  relative size and comes back collapsed.
\<close>

theorem restoreState_storeState_counterexample:
  "map collapsed (c_widgets ex_single_undisplayed) = [False]
   \<and> map collapsed (c_widgets (fst (restoreState (storeState ex_single_undisplayed)
                                         ex_single_undisplayed))) = [True]"
  by (simp add: ex_single_undisplayed_def ex_eval)

subsection \<open>Weights that are zero\<close>









subsection \<open>The sizes of visible, expanded parts\<close>

lemma falsy_weight: "\<not> truthy w \<Longrightarrow> weight_or w x = x"
  by (simp add: truthy_def weight_or_def split: option.splits)

lemma truthy_weight: "truthy w \<Longrightarrow> weight_or w x = weight_or w 0"
  by (simp add: truthy_def weight_or_def split: option.splits)

lemma sumWeights_all:
  "list_all isExpandedVisible ps \<Longrightarrow> length ws = length ps \<Longrightarrow>
   sumWeights ps ws (t, c) =
     (t + sum_list (map (\<lambda>w. weight_or w 0) ws), c + length (filter truthy ws))"
proof (induction ps arbitrary: ws t c)
  case Nil
  then show ?case by simp
next
  case (Cons p ps)
  from Cons.prems obtain w ws' where ws: "ws = w # ws'" and len: "length ws' = length ps"
    by (cases ws) simp_all
  from Cons.prems have "isExpandedVisible p" and rest: "list_all isExpandedVisible ps"
    by simp_all
  then have ev: "\<not> isHidden p" "\<not> collapsed p"
    by (simp_all add: isExpandedVisible_def)
  show ?case
  proof (cases "truthy w")
    case True
    with ev Cons.IH[OF rest len] show ?thesis by (simp add: ws add.assoc)
  next
    case False
    with ev Cons.IH[OF rest len] falsy_weight[OF False, of 0] show ?thesis by (simp add: ws)
  qed
qed

lemma addAverage_all:
  "list_all isExpandedVisible ps \<Longrightarrow> length ws = length ps \<Longrightarrow>
   addAverage avg ps ws t = t + avg * real (length (filter (\<lambda>w. \<not> truthy w) ws))"
proof (induction ps arbitrary: ws t)
  case Nil
  then show ?case by simp
next
  case (Cons p ps)
  from Cons.prems obtain w ws' where ws: "ws = w # ws'" and len: "length ws' = length ps"
    by (cases ws) simp_all
  from Cons.prems have "isExpandedVisible p" and rest: "list_all isExpandedVisible ps"
    by simp_all
  then have ev: "\<not> isHidden p" "\<not> collapsed p"
    by (simp_all add: isExpandedVisible_def)
  from ev Cons.IH[OF rest len] show ?case
    by (simp add: ws algebra_simps)
qed

lemma sum_weight_or:
  "sum_list (map (\<lambda>w. weight_or w avg) ws) =
     sum_list (map (\<lambda>w. weight_or w 0) ws) + avg * real (length (filter (\<lambda>w. \<not> truthy w) ws))"
proof (induction ws)
  case Nil
  then show ?case by simp
next
  case (Cons w ws)
  show ?case
  proof (cases "truthy w")
    case True
    with Cons truthy_weight[OF True, of avg] show ?thesis by simp
  next
    case False
    with Cons falsy_weight[OF False, of avg] falsy_weight[OF False, of 0] show ?thesis
      by (simp add: algebra_simps)
  qed
qed

lemma totalWeightOf_all:
  assumes "list_all isExpandedVisible ps" and "length ws = length ps"
  shows "totalWeightOf ps ws = sum_list (map (\<lambda>w. weight_or w (averageWeightOf ps ws)) ws)"
proof -
  define s where "s = sum_list (map (\<lambda>w. weight_or w 0) ws)"
  define n where "n = length (filter truthy ws)"
  have sw: "sumWeights ps ws (0, 0) = (s, n)"
    using sumWeights_all[OF assms, of 0 0] by (simp add: s_def n_def)
  have avg: "averageWeightOf ps ws = s / real n"
    by (simp add: averageWeightOf_def sw)
  have "totalWeightOf ps ws = addAverage (s / real n) ps ws s"
    by (simp add: totalWeightOf_def sw)
  also have "\<dots> = s + (s / real n) * real (length (filter (\<lambda>w. \<not> truthy w) ws))"
    by (rule addAverage_all[OF assms])
  also have "\<dots> = sum_list (map (\<lambda>w. weight_or w (s / real n)) ws)"
    unfolding s_def by (rule sum_weight_or[symmetric])
  finally show ?thesis
    by (simp only: avg)
qed

lemma shares_sum:
  assumes "list_all isExpandedVisible ps" and "length ws = length ps"
    and "totalWeightOf ps ws \<noteq> 0"
  shows "sum_list (map (share ps ws av) [0..<length ps]) = av"
proof -
  define avg where "avg = averageWeightOf ps ws"
  define tot where "tot = totalWeightOf ps ws"
  have "map (share ps ws av) [0..<length ps] =
        map (\<lambda>i. weight_or (ws ! i) avg * (av / tot)) [0..<length ws]"
    by (simp add: share_def assms(2) avg_def tot_def)
  also have "\<dots> = map (\<lambda>w. weight_or w avg * (av / tot)) ws"
    by (rule nth_equalityI) simp_all
  finally have "sum_list (map (share ps ws av) [0..<length ps]) =
      sum_list (map (\<lambda>w. weight_or w avg * (av / tot)) ws)"
    by simp
  also have "\<dots> = sum_list (map (\<lambda>w. weight_or w avg) ws) * (av / tot)"
    by (rule sum_list_mult_const)
  also have "sum_list (map (\<lambda>w. weight_or w avg) ws) = tot"
    unfolding avg_def tot_def by (rule totalWeightOf_all[OF assms(1,2), symmetric])
  also have "tot * (av / tot) = av"
    using assms(3) by (simp add: tot_def)
  finally show ?thesis .
qed

lemma sizePart_expanded:
  assumes "\<not> collapsed p" and "tot \<noteq> 0"
  shows "sizePart L d avg tot av p w pos =
     Some (p, (if l_orientation L = Vertical then pos + headerSize L else pos)
                + max (weight_or w avg / tot * av) (minSize d p),
           Some (max (weight_or w avg / tot * av) (minSize d p)))"
  using assms by (simp add: sizePart_def js_div_def Let_def max_def)

lemma applyWeights_all:
  assumes "tot \<noteq> 0"
  shows "list_all isExpandedVisible ps \<Longrightarrow>
     \<exists>st'. applyWeights L d avg tot av index ps ws st = Some st'
       \<and> w_parts st' = w_parts st @ ps
       \<and> w_sizes st' = w_sizes st @
            map (\<lambda>(i, p, w). (i, max (weight_or w avg / tot * av) (minSize d p)))
              (zip [index..<index + length ps] (zip ps ws))"
proof (induction ps arbitrary: ws index st)
  case Nil
  then show ?case by simp
next
  case (Cons p ps)
  from Cons.prems have "isExpandedVisible p" and rest: "list_all isExpandedVisible ps"
    by simp_all
  then have ev: "\<not> isHidden p" "\<not> collapsed p"
    by (simp_all add: isExpandedVisible_def)
  show ?case
  proof (cases ws)
    case Nil
    then show ?thesis by simp
  next
    case ws: (Cons w ws')
    let ?f = "\<lambda>(i, p, w). (i, max (weight_or w avg / tot * av) (minSize d p))"
    define c where "c = max (weight_or w avg / tot * av) (minSize d p)"
    define position where
      "position = (if l_orientation L = Vertical then w_position st + headerSize L else w_position st) + c"
    define st1 where "st1 = \<lparr>w_position = position + spacing L, w_parts = w_parts st @ [p],
        w_handles = w_handles st @ [(index, position)], w_sizes = w_sizes st @ [(index, c)]\<rparr>"
    define rest_sizes where
      "rest_sizes = map ?f (zip [Suc index..<Suc index + length ps] (zip ps ws'))"
    have sp: "sizePart L d avg tot av p w (w_position st) = Some (p, position, Some c)"
      unfolding position_def c_def by (rule sizePart_expanded[OF ev(2) assms])
    have unf: "applyWeights L d avg tot av index (p # ps) ws st =
               applyWeights L d avg tot av (Suc index) ps ws' st1"
      using ev(1) by (simp add: ws sp st1_def)
    from Cons.IH[OF rest, of "Suc index" ws' st1] obtain st' where
      st': "applyWeights L d avg tot av (Suc index) ps ws' st1 = Some st'"
      and parts: "w_parts st' = w_parts st1 @ ps"
      and sizes: "w_sizes st' = w_sizes st1 @ rest_sizes"
      unfolding rest_sizes_def by blast
    have upt: "[index..<index + length (p # ps)] = index # [Suc index..<Suc index + length ps]"
      using upt_conv_Cons[of index "index + Suc (length ps)"] by simp
    have z: "map ?f (zip [index..<index + length (p # ps)] (zip (p # ps) ws)) = (index, c) # rest_sizes"
      unfolding upt ws rest_sizes_def c_def
      by (simp only: zip_Cons_Cons list.map prod.case)
    have "w_parts st' = w_parts st @ p # ps"
      by (simp add: parts st1_def)
    moreover have "w_sizes st' = w_sizes st @ (index, c) # rest_sizes"
      by (simp add: sizes st1_def)
    ultimately show ?thesis
      unfolding unf z using st' by blast
  qed
qed

text \<open>
  Claim C1, amended. Let all parts be visible and expanded, let there be a weight entry
  (which may be absent) for every part, at least one of them not zero, let the available
  size and the total weight be not zero. Then \<^verbatim>\<open>setPartSizes\<close> computes a content size for
  every part but the last one (one for every split handle): its share of the available
  size, that is, its weight, or the average weight for a part without weight, divided by
  the total weight times the available size, clamped up to the minimum size of the part.
  The shares of all parts, the last one included, sum up to the available size.
\<close>

theorem setPartSizes_shares:
  assumes "list_all isExpandedVisible (widgets L)"
    and "length weights = length (widgets L)"
    and "list_ex truthy weights"
    and "getAvailableSize L d \<noteq> 0"
    and "totalWeightOf (widgets L) weights \<noteq> 0"
  shows "(\<exists>handles. setPartSizes L d weights =
            Sized L handles
              (map (\<lambda>i. (i, max (share (widgets L) weights (getAvailableSize L d) i)
                             (minSize d (widgets L ! i))))
                 [0..<length (widgets L) - 1]))
         \<and> sum_list (map (share (widgets L) weights (getAvailableSize L d))
                     [0..<length (widgets L)]) = getAvailableSize L d"
proof
  let ?ps = "widgets L"
  let ?av = "getAvailableSize L d"
  define avg where "avg = averageWeightOf ?ps weights"
  define tot where "tot = totalWeightOf ?ps weights"
  define s where "s = sum_list (map (\<lambda>w. weight_or w 0) weights)"
  define n where "n = length (filter truthy weights)"
  have sw: "sumWeights ?ps weights (0, 0) = (s, n)"
    using sumWeights_all[OF assms(1,2), of 0 0] by (simp add: s_def n_def)
  from assms(3) have n: "n \<noteq> 0"
    by (auto simp: n_def list_ex_iff filter_empty_conv)
  have avg: "s / real n = avg"
    by (simp add: avg_def averageWeightOf_def sw)
  have tot: "addAverage avg ?ps weights s = tot"
    by (simp add: tot_def totalWeightOf_def sw avg)
  have bl: "list_all isExpandedVisible (butlast ?ps)"
    using assms(1) by (auto simp: list_all_iff dest: in_set_butlastD)
  from assms(5) have tot0: "tot \<noteq> 0" by (simp add: tot_def)
  from applyWeights_all[OF tot0 bl, of L d avg ?av 0 weights
      "\<lparr>w_position = 0, w_parts = [], w_handles = [], w_sizes = []\<rparr>"]
  obtain st where
    st: "applyWeights L d avg tot ?av 0 (butlast ?ps) weights
           \<lparr>w_position = 0, w_parts = [], w_handles = [], w_sizes = []\<rparr> = Some st"
    and parts: "w_parts st = butlast ?ps"
    and sizes: "w_sizes st =
            map (\<lambda>(i, p, w). (i, max (weight_or w avg / tot * ?av) (minSize d p)))
              (zip [0..<length (butlast ?ps)] (zip (butlast ?ps) weights))"
    by auto
  have same: "L\<lparr>widgets := butlast ?ps @ drop (length ?ps - 1) ?ps\<rparr> = L"
    using butlast_drop_last[of ?ps] by simp
  have res: "setPartSizes L d weights = Sized L (w_handles st) (w_sizes st)"
    using n assms(4) by (simp add: setPartSizes_def Let_def sw avg tot st parts same del: One_nat_def)
  have "w_sizes st =
      map (\<lambda>i. (i, max (share ?ps weights ?av i) (minSize d (?ps ! i)))) [0..<length ?ps - 1]"
    unfolding sizes
    by (rule nth_equalityI)
       (simp_all add: assms(2) share_def avg_def tot_def nth_butlast)
  with res show "\<exists>handles. setPartSizes L d weights =
            Sized L handles
              (map (\<lambda>i. (i, max (share ?ps weights ?av i) (minSize d (?ps ! i))))
                 [0..<length ?ps - 1])"
    by auto
next
  show "sum_list (map (share (widgets L) weights (getAvailableSize L d))
                     [0..<length (widgets L)]) = getAvailableSize L d"
    by (rule shares_sum[OF assms(1,2,5)])
qed

lemmas sizing_eval =
  setPartSizes_def getAvailableSize_def sizePart_def js_div_def weight_or_def truthy_def
  minSize_def isExpandedVisible_def ex_three_def ex_layout_def ex_part_def ex_dom_def Let_def

theorem setPartSizes_shares_witness:
  "list_all isExpandedVisible (widgets ex_three)
   \<and> length [Some (1 / 2), Some (3 / 10), Some (1 / 5 :: real)] = length (widgets ex_three)
   \<and> list_ex truthy [Some (1 / 2), Some (3 / 10), Some (1 / 5)]
   \<and> getAvailableSize ex_three ex_dom = 1000
   \<and> totalWeightOf (widgets ex_three) [Some (1 / 2), Some (3 / 10), Some (1 / 5)] = 1
   \<and> (\<exists>handles. setPartSizes ex_three ex_dom [Some (1 / 2), Some (3 / 10), Some (1 / 5)] =
          Sized ex_three handles [(0, 500), (1, 300)])
   \<and> sum_list (map (share (widgets ex_three) [Some (1 / 2), Some (3 / 10), Some (1 / 5)] 1000)
               [0..<3]) = 1000"
proof -
  let ?ws = "[Some (1 / 2), Some (3 / 10), Some (1 / 5 :: real)]"
  have h1: "list_all isExpandedVisible (widgets ex_three)"
    and h2: "length ?ws = length (widgets ex_three)"
    and h3: "list_ex truthy ?ws"
    by (simp_all add: sizing_eval)
  have av: "getAvailableSize ex_three ex_dom = 1000"
    by (simp add: sizing_eval)
  have tot: "totalWeightOf (widgets ex_three) ?ws = 1"
    and avg: "averageWeightOf (widgets ex_three) ?ws = 1 / 3"
    by (simp_all add: totalWeightOf_def averageWeightOf_def sizing_eval)
  have h4: "getAvailableSize ex_three ex_dom \<noteq> 0" and h5: "totalWeightOf (widgets ex_three) ?ws \<noteq> 0"
    by (simp_all add: av tot)
  have len: "length (widgets ex_three) = 3"
    by (simp add: sizing_eval)
  have upt2: "[0..<3 - 1] = [0, Suc 0]"
    by (simp add: eval_nat_numeral)
  have sh: "share (widgets ex_three) ?ws 1000 0 = 500" "share (widgets ex_three) ?ws 1000 (Suc 0) = 300"
    by (simp_all add: share_def tot avg weight_or_def)
  have ms: "minSize ex_dom p = 0" for p
    by (simp add: minSize_def ex_dom_def)
  from setPartSizes_shares[OF h1 h2 h3 h4 h5] h1 h2 h3 av tot show ?thesis
    unfolding av len upt2 by (simp add: sh ms)
qed

text \<open>
  The claim as stated fails already where all three parts have weights that sum up to 1:
  sizes are computed for the first two parts only, and they sum up to 800, while the
  available size is 1000.
\<close>

theorem setPartSizes_sum_counterexample:
  "getAvailableSize ex_three ex_dom = 1000
   \<and> setPartSizes ex_three ex_dom [Some (1 / 2), Some (3 / 10), Some (1 / 5)] =
       Sized ex_three [(0, 522), (1, 846)] [(0, 500), (1, 300)]
   \<and> sum_list (map snd [(0 :: nat, 500 :: real), (1, 300)]) \<noteq> 1000"
  by (simp add: sizing_eval)

subsection \<open>The result of setPartSizes\<close>














end
